theory Spec2Isabelle
  imports Complex_Main "HOL-Library.Log_Nat"
begin

section \<open>Estimating pi with the Chudnovsky and Ramanujan--Sato series\<close>

text \<open>
  The notebook \<^verbatim>\<open>Chudnovsky.ipynb\<close> holds two code cells. Each defines the
  recursive \<^verbatim>\<open>factorial\<close> and a function \<^verbatim>\<open>estimate_pi(num_terms)\<close>: the first
  cell sums the Chudnovsky series, the second the Ramanujan--Sato series. Both
  print the estimate and its distance from \<^verbatim>\<open>math.pi\<close> for 1, 4 and 8 terms.

  Python integers are unbounded and are modelled by \<open>int\<close>. Python floats are IEEE 754
  binary64 numbers; they are modelled exactly, a finite float as an integer significand
  and a binary exponent, every operation as the exact result rounded to nearest, ties
  to even. Exceptions are values of a sum type. The recursion of \<^verbatim>\<open>factorial\<close> is
  bounded by the interpreter's recursion limit; the number of nested calls that are
  still allowed is a parameter of the model.
\<close>

subsection \<open>Exceptions\<close>

text \<open>
  \<open>RecursionError\<close>, \<open>ZeroDivisionError\<close> and \<open>OverflowError\<close> are the exceptions the
  two cells can raise. \<open>ValueError\<close> is Python's exception for an invalid argument
  (\<^verbatim>\<open>math.sqrt\<close> raises it below zero); no statement of the notebook itself raises it.
\<close>

datatype py_error = RecursionError | ZeroDivisionError | OverflowError | ValueError

definition bind_err :: "'e + 'a \<Rightarrow> ('a \<Rightarrow> 'e + 'b) \<Rightarrow> 'e + 'b" where
  "bind_err x f = (case x of Inl err \<Rightarrow> Inl err | Inr v \<Rightarrow> f v)"

subsection \<open>The factorial\<close>

text \<open>
  \<^verbatim>\<open>
  def factorial(n):
      if n == 0:
          return 1
      return n * factorial(n - 1)
  \<close>
  The first argument of the model is the number of nested calls of \<^verbatim>\<open>factorial\<close>
  the interpreter still allows: a call made when none is left raises
  \<^verbatim>\<open>RecursionError\<close>. There is no other check of the argument.
\<close>

fun factorial :: "nat \<Rightarrow> int \<Rightarrow> py_error + int" where
  "factorial 0 n = Inl RecursionError"
| "factorial (Suc d) n =
     (if n = 0 then Inr 1
      else bind_err (factorial d (n - 1)) (\<lambda>r. Inr (n * r)))"

subsection \<open>Binary64 floats\<close>

text \<open>
  \<open>Fin m e\<close> is the finite float \<open>m * 2 ^ e\<close>. Rounding produces the significand in
  \<open>[2 ^ 52, 2 ^ 53)\<close> for a normal number, exponent \<open>- 1074\<close> and a smaller significand
  for a subnormal one, and \<open>Fin 0 0\<close> for zero. The sign of a zero is not kept: Python
  raises \<^verbatim>\<open>ZeroDivisionError\<close> on division by either zero, so these programs cannot
  observe it.
\<close>

datatype float64 = Fin int int | PInf | NInf | NaN

definition valof :: "float64 \<Rightarrow> real" where
  "valof x = (case x of Fin m e \<Rightarrow> of_int m * 2 powi e | _ \<Rightarrow> 0)"

text \<open>\<open>floor_log2 a b\<close> is the integer part of the binary logarithm of \<open>a / b\<close>, for positive \<open>a\<close> and \<open>b\<close>.\<close>

definition floor_log2 :: "int \<Rightarrow> int \<Rightarrow> int" where
  "floor_log2 a b = (let d = bitlen a - bitlen b in
      if b * 2 ^ nat d \<le> a * 2 ^ nat (- d) then d else d - 1)"

text \<open>\<open>rne n d\<close> is the integer nearest to \<open>n / d\<close> (for \<open>d > 0\<close>), the even one of two that are equally near.\<close>

definition rne :: "int \<Rightarrow> int \<Rightarrow> int" where
  "rne n d = (let q = n div d; r = n mod d in
      if 2 * r < d then q else if d < 2 * r then q + 1
      else if even q then q else q + 1)"

definition carry :: "int \<times> int \<Rightarrow> int \<times> int" where
  "carry me = (case me of (m, e) \<Rightarrow> if m = 2 ^ 53 then (2 ^ 52, e + 1) else (m, e))"

text \<open>
  \<open>round_pos a b\<close> rounds the positive rational \<open>a / b\<close> to 53 significant bits, or
  to a multiple of \<open>2 ^ - 1074\<close> where that is coarser; the exponent is not bounded
  above. \<open>pack\<close> adds the sign and turns a result beyond the largest float into an
  infinity.
\<close>

definition round_pos :: "int \<Rightarrow> int \<Rightarrow> int \<times> int" where
  "round_pos a b = (let e = max (floor_log2 a b - 52) (- 1074)
     in carry (rne (a * 2 ^ nat (- e)) (b * 2 ^ nat e), e))"

definition pack :: "bool \<Rightarrow> int \<times> int \<Rightarrow> float64" where
  "pack neg me = (case me of (m, e) \<Rightarrow>
     if m = 0 then Fin 0 0
     else if 971 < e then (if neg then NInf else PInf)
     else Fin (if neg then - m else m) e)"

definition round64 :: "int \<Rightarrow> int \<Rightarrow> float64" where
  "round64 a b = (if a = 0 then Fin 0 0 else pack (a < 0) (round_pos \<bar>a\<bar> b))"

definition round_dyadic :: "int \<Rightarrow> int \<Rightarrow> float64" where
  "round_dyadic m e = round64 (m * 2 ^ nat e) (2 ^ nat (- e))"

text \<open>Float addition, multiplication and division as IEEE 754 defines them; Python raises on a zero divisor.\<close>

fun fadd :: "float64 \<Rightarrow> float64 \<Rightarrow> float64" where
  "fadd (Fin m1 e1) (Fin m2 e2) =
     (let e = min e1 e2 in round_dyadic (m1 * 2 ^ nat (e1 - e) + m2 * 2 ^ nat (e2 - e)) e)"
| "fadd NaN y = NaN"
| "fadd x NaN = NaN"
| "fadd PInf NInf = NaN"
| "fadd NInf PInf = NaN"
| "fadd PInf y = PInf"
| "fadd NInf y = NInf"
| "fadd x PInf = PInf"
| "fadd x NInf = NInf"

definition fsign :: "float64 \<Rightarrow> int" where
  "fsign x = (case x of Fin m e \<Rightarrow> sgn m | PInf \<Rightarrow> 1 | NInf \<Rightarrow> - 1 | NaN \<Rightarrow> 0)"

definition inf_of_sign :: "int \<Rightarrow> float64" where
  "inf_of_sign s = (if s = 0 then NaN else if 0 < s then PInf else NInf)"

fun fmul :: "float64 \<Rightarrow> float64 \<Rightarrow> float64" where
  "fmul (Fin m1 e1) (Fin m2 e2) = round_dyadic (m1 * m2) (e1 + e2)"
| "fmul NaN y = NaN"
| "fmul x NaN = NaN"
| "fmul PInf y = inf_of_sign (fsign y)"
| "fmul NInf y = inf_of_sign (- fsign y)"
| "fmul x PInf = inf_of_sign (fsign x)"
| "fmul x NInf = inf_of_sign (- fsign x)"

fun fdiv :: "float64 \<Rightarrow> float64 \<Rightarrow> py_error + float64" where
  "fdiv x (Fin m2 e2) =
     (if m2 = 0 then Inl ZeroDivisionError
      else case x of
        Fin m1 e1 \<Rightarrow>
          Inr (round64 (sgn m2 * m1 * 2 ^ nat (e1 - e2)) (\<bar>m2\<bar> * 2 ^ nat (e2 - e1)))
      | NaN \<Rightarrow> Inr NaN
      | _ \<Rightarrow> Inr (inf_of_sign (fsign x * sgn m2)))"
| "fdiv x NaN = Inr NaN"
| "fdiv (Fin m1 e1) y = Inr (Fin 0 0)"
| "fdiv x y = Inr NaN"

text \<open>
  Conversion of an integer to a float (\<^verbatim>\<open>OverflowError\<close>: int too large to convert to
  float) and the true division \<^verbatim>\<open>a / b\<close> of two integers, which CPython rounds
  correctly and which raises \<^verbatim>\<open>OverflowError\<close> when the quotient is too large for a
  float.
\<close>

definition finite_or_overflow :: "float64 \<Rightarrow> py_error + float64" where
  "finite_or_overflow x = (case x of Fin m e \<Rightarrow> Inr (Fin m e) | _ \<Rightarrow> Inl OverflowError)"

definition float_of_int :: "int \<Rightarrow> py_error + float64" where
  "float_of_int i = finite_or_overflow (round64 i 1)"

definition int_truediv :: "int \<Rightarrow> int \<Rightarrow> py_error + float64" where
  "int_truediv a b = (if b = 0 then Inl ZeroDivisionError
     else finite_or_overflow (round64 (sgn b * a) \<bar>b\<bar>))"

text \<open>The mixed operations the two cells use: Python converts the integer operand first.\<close>

definition int_mul_float :: "int \<Rightarrow> float64 \<Rightarrow> py_error + float64" where
  "int_mul_float i x = bind_err (float_of_int i) (\<lambda>y. Inr (fmul y x))"

definition int_div_float :: "int \<Rightarrow> float64 \<Rightarrow> py_error + float64" where
  "int_div_float i x = bind_err (float_of_int i) (\<lambda>y. fdiv y x)"

definition float_div_int :: "float64 \<Rightarrow> int \<Rightarrow> py_error + float64" where
  "float_div_int x i = bind_err (float_of_int i) (\<lambda>y. fdiv x y)"

subsection \<open>Square roots and the half-integer power\<close>

text \<open>\<open>isqrt n\<close> is the integer part of the square root of \<open>n\<close>, found bit by bit.\<close>

fun isqrt_aux :: "nat \<Rightarrow> int \<Rightarrow> int \<Rightarrow> int" where
  "isqrt_aux 0 n r = (if (r + 1)\<^sup>2 \<le> n then r + 1 else r)"
| "isqrt_aux (Suc i) n r =
     isqrt_aux i n (if (r + 2 ^ Suc i)\<^sup>2 \<le> n then r + 2 ^ Suc i else r)"

definition isqrt :: "int \<Rightarrow> int" where
  "isqrt n = isqrt_aux (nat (bitlen n) div 2) n 0"

text \<open>
  \<open>round_sqrt M h\<close> is the square root of \<open>M * 4 ^ h\<close> (for \<open>M > 0\<close>) rounded to 53
  significant bits: the integer part \<open>q\<close> of the scaled root, and one more when the
  root lies above \<open>q + 1/2\<close>, or on it with \<open>q\<close> odd.
\<close>

definition round_sqrt :: "int \<Rightarrow> int \<Rightarrow> int \<times> int" where
  "round_sqrt M h = (let s = (bitlen M - 1) div 2 - 52;
       q = isqrt (M * 4 ^ nat (- s) div 4 ^ nat s);
       half = (2 * q + 1)\<^sup>2 * 4 ^ nat s;
       root = 4 * M * 4 ^ nat (- s);
       up = (half < root \<or> (half = root \<and> odd q))
     in carry (if up then q + 1 else q, s + h))"

text \<open>\<^verbatim>\<open>math.sqrt\<close>: the correctly rounded square root, \<^verbatim>\<open>ValueError\<close> below zero.\<close>

definition py_sqrt :: "float64 \<Rightarrow> py_error + float64" where
  "py_sqrt x = (case x of
       Fin m e \<Rightarrow>
         if m < 0 then Inl ValueError
         else if m = 0 then Inr (Fin 0 0)
         else Inr (pack False
           (if even e then round_sqrt m (e div 2) else round_sqrt (2 * m) ((e - 1) div 2)))
     | PInf \<Rightarrow> Inr PInf
     | NInf \<Rightarrow> Inl ValueError
     | NaN \<Rightarrow> Inr NaN)"

text \<open>
  \<open>py_pow_half b j\<close> is \<^verbatim>\<open>b ** y\<close> for a positive integer \<open>b\<close> and the float
  \<open>y = j / 2\<close>: the square root of \<open>b ^ j\<close>, rounded. Python evaluates the power of
  two floats with the C library's \<^verbatim>\<open>pow\<close> and raises \<^verbatim>\<open>OverflowError\<close> when the
  result is out of range. The C library's result is modelled as the correctly
  rounded one; with it the model reproduces the six estimates the notebook printed.
\<close>

definition py_pow_half :: "int \<Rightarrow> int \<Rightarrow> py_error + float64" where
  "py_pow_half b j = finite_or_overflow (pack False (round_sqrt (b ^ nat j) 0))"

subsection \<open>The two estimators\<close>

text \<open>
  \<^verbatim>\<open>sum_result\<close> starts as the integer 0 and is a float after the first addition,
  so it is a value of either type.
\<close>

datatype pyval = PInt int | PFloat float64

definition to_float :: "pyval \<Rightarrow> py_error + float64" where
  "to_float v = (case v of PInt i \<Rightarrow> float_of_int i | PFloat x \<Rightarrow> Inr x)"

text \<open>\<^verbatim>\<open>sum_result += q\<close> for a float \<open>q\<close>, \<^verbatim>\<open>i * v\<close> and \<^verbatim>\<open>i / v\<close> for an integer \<open>i\<close>.\<close>

definition py_add_float :: "pyval \<Rightarrow> float64 \<Rightarrow> py_error + pyval" where
  "py_add_float v q = bind_err (to_float v) (\<lambda>s. Inr (PFloat (fadd s q)))"

definition py_int_mul :: "int \<Rightarrow> pyval \<Rightarrow> py_error + pyval" where
  "py_int_mul i v = (case v of
       PInt j \<Rightarrow> Inr (PInt (i * j))
     | PFloat x \<Rightarrow> bind_err (int_mul_float i x) (\<lambda>y. Inr (PFloat y)))"

definition py_int_div :: "int \<Rightarrow> pyval \<Rightarrow> py_error + float64" where
  "py_int_div i v = (case v of PInt j \<Rightarrow> int_truediv i j | PFloat x \<Rightarrow> int_div_float i x)"

text \<open>\<^verbatim>\<open>range(n)\<close>: the integers from 0 to \<open>n - 1\<close>, none when \<open>n \<le> 0\<close>.\<close>

definition range_py :: "int \<Rightarrow> int list" where
  "range_py n = map int [0..<nat n]"

text \<open>
  The first cell:
  \<^verbatim>\<open>
  def estimate_pi(num_terms):
      sum_result = 0
      for k in range(num_terms):
          numerator = (-1)**k * factorial(6*k) * (545140134*k + 13591409)
          denominator = factorial(3*k) * (factorial(k)**3) * (640320**(3*k + 3/2))
          sum_result += numerator / denominator
      return 1 / (12 * sum_result)
  \<close>
  The exponent \<^verbatim>\<open>3*k + 3/2\<close> is the float \<open>(6 * k + 3) / 2\<close>. (It is exact while
  \<open>3 * k < 2 ^ 51\<close>; the power has overflowed long before, from \<open>k = 18\<close> on, and the
  loop does not get further.)
\<close>

definition chud_numerator :: "nat \<Rightarrow> int \<Rightarrow> py_error + int" where
  "chud_numerator d k =
     bind_err (factorial d (6 * k)) (\<lambda>f6.
     Inr ((- 1) ^ nat k * f6 * (545140134 * k + 13591409)))"

definition chud_denominator :: "nat \<Rightarrow> int \<Rightarrow> py_error + float64" where
  "chud_denominator d k =
     bind_err (factorial d (3 * k)) (\<lambda>f3.
     bind_err (factorial d k) (\<lambda>fk.
     bind_err (py_pow_half 640320 (6 * k + 3)) (\<lambda>p.
     int_mul_float (f3 * fk ^ 3) p)))"

definition chud_step :: "nat \<Rightarrow> int \<Rightarrow> pyval \<Rightarrow> py_error + pyval" where
  "chud_step d k sum_result =
     bind_err (chud_numerator d k) (\<lambda>numerator.
     bind_err (chud_denominator d k) (\<lambda>denominator.
     bind_err (int_div_float numerator denominator) (\<lambda>q.
     py_add_float sum_result q)))"

fun chud_loop :: "nat \<Rightarrow> int list \<Rightarrow> pyval \<Rightarrow> py_error + pyval" where
  "chud_loop d [] sum_result = Inr sum_result"
| "chud_loop d (k # ks) sum_result = bind_err (chud_step d k sum_result) (chud_loop d ks)"

text \<open>The return statement, and the function.\<close>

definition chud_finish :: "pyval \<Rightarrow> py_error + float64" where
  "chud_finish sum_result = bind_err (py_int_mul 12 sum_result) (\<lambda>t. py_int_div 1 t)"

definition estimate_pi_chudnovsky :: "nat \<Rightarrow> int \<Rightarrow> py_error + float64" where
  "estimate_pi_chudnovsky d num_terms =
     bind_err (chud_loop d (range_py num_terms) (PInt 0)) chud_finish"

text \<open>
  The second cell:
  \<^verbatim>\<open>
  def estimate_pi(num_terms):
      sum_result = 0
      for k in range(num_terms):
          numerator = factorial(4*k) * (1103 + 26390*k)
          denominator = (factorial(k)**4) * (396**(4*k))
          sum_result += numerator / denominator
      factor = (2 * math.sqrt(2)) / 9801
      pi_inverse = factor * sum_result
      return 1 / pi_inverse
  \<close>
\<close>

definition rama_numerator :: "nat \<Rightarrow> int \<Rightarrow> py_error + int" where
  "rama_numerator d k =
     bind_err (factorial d (4 * k)) (\<lambda>f4. Inr (f4 * (1103 + 26390 * k)))"

definition rama_denominator :: "nat \<Rightarrow> int \<Rightarrow> py_error + int" where
  "rama_denominator d k =
     bind_err (factorial d k) (\<lambda>fk. Inr (fk ^ 4 * 396 ^ nat (4 * k)))"

definition rama_step :: "nat \<Rightarrow> int \<Rightarrow> pyval \<Rightarrow> py_error + pyval" where
  "rama_step d k sum_result =
     bind_err (rama_numerator d k) (\<lambda>numerator.
     bind_err (rama_denominator d k) (\<lambda>denominator.
     bind_err (int_truediv numerator denominator) (\<lambda>q.
     py_add_float sum_result q)))"

fun rama_loop :: "nat \<Rightarrow> int list \<Rightarrow> pyval \<Rightarrow> py_error + pyval" where
  "rama_loop d [] sum_result = Inr sum_result"
| "rama_loop d (k # ks) sum_result = bind_err (rama_step d k sum_result) (rama_loop d ks)"

text \<open>\<^verbatim>\<open>(2 * math.sqrt(2)) / 9801\<close>\<close>

definition rama_factor :: "py_error + float64" where
  "rama_factor =
     bind_err (float_of_int 2) (\<lambda>two.
     bind_err (py_sqrt two) (\<lambda>root.
     bind_err (int_mul_float 2 root) (\<lambda>twice.
     float_div_int twice 9801)))"

text \<open>The three statements after the loop, and the function.\<close>

definition rama_finish :: "pyval \<Rightarrow> py_error + float64" where
  "rama_finish sum_result =
     bind_err rama_factor (\<lambda>factor.
     bind_err (to_float sum_result) (\<lambda>s.
     let pi_inverse = fmul factor s in
     int_div_float 1 pi_inverse))"

definition estimate_pi_ramanujan :: "nat \<Rightarrow> int \<Rightarrow> py_error + float64" where
  "estimate_pi_ramanujan d num_terms =
     bind_err (rama_loop d (range_py num_terms) (PInt 0)) rama_finish"

text \<open>
  \<^verbatim>\<open>math.pi\<close>, the float nearest to pi; the notebook prints it as
  \<^verbatim>\<open>3.141592653589793\<close>.
\<close>

definition math_pi :: float64 where
  "math_pi = Fin 7074237752028440 (- 51)"

text \<open>The float a decimal literal with \<open>n\<close> digits after the point denotes.\<close>

definition float_literal :: "int \<Rightarrow> nat \<Rightarrow> float64" where
  "float_literal digits n = round64 digits (10 ^ n)"

subsection \<open>Quantities of the analysis\<close>

text \<open>
  The \<open>k\<close>-th term of the Ramanujan--Sato series as the specification writes it, a
  real number:
  \<open>(4k)! (1103 + 26390 k) / ((k!) ^ 4 * 396 ^ (4 k))\<close>.
\<close>

definition rama_term :: "nat \<Rightarrow> real" where
  "rama_term k = fact (4 * k) * (1103 + 26390 * real k) / (fact k ^ 4 * 396 ^ (4 * k))"

text \<open>
  The sum of the first \<open>n\<close> terms, and the value the specification gives for the
  estimate: \<open>1 / ((2 sqrt 2 / 9801) S)\<close>.
\<close>

definition rama_series :: "nat \<Rightarrow> real" where
  "rama_series n = (\<Sum>k<n. rama_term k)"

definition rama_formula :: "nat \<Rightarrow> real" where
  "rama_formula n = 1 / ((2 * sqrt 2 / 9801) * rama_series n)"

text \<open>
  The same for the Chudnovsky series. Its \<open>k\<close>-th term is
  \<open>(-1) ^ k (6k)! (545140134 k + 13591409) / ((3k)! (k!) ^ 3 * 640320 ^ (3k + 3/2))\<close>,
  and the estimate is \<open>1 / (12 S)\<close>. \<open>chud_magnitude k\<close> is the absolute value of the
  term without the factor \<open>1 / sqrt 640320\<close>, a rational number, and \<open>chud_partial\<close>
  is the sum of these with alternating signs.
\<close>

definition chud_term :: "nat \<Rightarrow> real" where
  "chud_term k = (- 1) ^ k * fact (6 * k) * (545140134 * real k + 13591409)
     / (fact (3 * k) * fact k ^ 3 * 640320 powr (3 * real k + 3 / 2))"

definition chud_magnitude :: "nat \<Rightarrow> real" where
  "chud_magnitude k = fact (6 * k) * (545140134 * real k + 13591409)
     / (fact (3 * k) * fact k ^ 3 * 640320 ^ (3 * k + 1))"

definition chud_series :: "nat \<Rightarrow> real" where
  "chud_series n = (\<Sum>k<n. chud_term k)"

definition chud_formula :: "nat \<Rightarrow> real" where
  "chud_formula n = 1 / (12 * chud_series n)"

definition chud_partial :: "nat \<Rightarrow> real" where
  "chud_partial n = (\<Sum>k<n. (- 1) ^ k * chud_magnitude k)"

text \<open>
  The values the float sums settle on: the Ramanujan--Sato sum after three terms, the
  Chudnovsky sum after one term and after two.
\<close>

definition rama_sum_3 :: float64 where
  "rama_sum_3 = Fin 4851045419755984 (- 42)"

definition chud_sum_1 :: float64 where
  "chud_sum_1 = Fin 7645548185630355 (- 58)"

definition chud_sum_2 :: float64 where
  "chud_sum_2 = Fin 7645548185630211 (- 58)"

section \<open>Properties\<close>

subsection \<open>Evaluation\<close>

text \<open>The bit length of a numeral, computed along its binary digits.\<close>

lemma bitlen_numeral_code [code]:
  "bitlen 0 = 0"
  "bitlen (Int.Neg n) = 0"
  "bitlen (Int.Pos Num.One) = 1"
  "bitlen (Int.Pos (Num.Bit0 n)) = bitlen (Int.Pos n) + 1"
  "bitlen (Int.Pos (Num.Bit1 n)) = bitlen (Int.Pos n) + 1"
proof -
  show "bitlen 0 = 0" by simp
  show "bitlen (Int.Neg n) = 0" by (simp add: bitlen_alt_def Int.Neg_def)
  show "bitlen (Int.Pos Num.One) = 1" by (simp add: bitlen_alt_def)
  have "bitlen (numeral n * 2 ^ 1) = bitlen (numeral n) + int 1"
    by (rule bitlen_pow2) simp
  moreover have "numeral n * 2 ^ 1 = (numeral (Num.Bit0 n) :: int)"
  proof -
    have "(numeral (Num.Bit0 n) :: int) = numeral n + numeral n"
      by (rule numeral_Bit0)
    also have "\<dots> = numeral n * 2 ^ 1"
      by (simp only: power_one_right mult_2_right)
    finally show ?thesis by (rule sym)
  qed
  ultimately show "bitlen (Int.Pos (Num.Bit0 n)) = bitlen (Int.Pos n) + 1"
    by (simp add: Int.Pos_def)
  have "bitlen (numeral (Num.Bit1 n)) = bitlen (numeral (Num.Bit1 n) div 2) + 1"
    by (subst compute_bitlen) simp
  moreover have "numeral (Num.Bit1 n) div (2::int) = numeral n"
    by simp
  ultimately show "bitlen (Int.Pos (Num.Bit1 n)) = bitlen (Int.Pos n) + 1"
    by (simp add: Int.Pos_def)
qed

subsection \<open>The factorial\<close>

lemma bind_err_Inl [simp]: "bind_err (Inl e) f = Inl e"
  by (simp add: bind_err_def)

lemma bind_err_Inr [simp]: "bind_err (Inr v) f = f v"
  by (simp add: bind_err_def)

lemma factorial_fact: "factorial (Suc (n + j)) (int n) = Inr (fact n)"
proof (induction n)
  case 0
  show ?case by simp
next
  case (Suc n)
  have "int (Suc n) - 1 = int n" by simp
  then show ?case using Suc by simp
qed

lemma factorial_returns:
  assumes "0 \<le> n" and "nat n < d"
  shows "factorial d n = Inr (fact (nat n))"
proof -
  obtain j where "d = Suc (nat n + j)"
    using assms(2) less_iff_Suc_add by auto
  with factorial_fact [of "nat n" j] assms(1) show ?thesis by simp
qed

lemma factorial_negative: "n < 0 \<Longrightarrow> factorial d n = Inl RecursionError"
  by (induction d arbitrary: n) simp_all

text \<open>
  C3. For every integer \<open>n \<ge> 0\<close>, \<^verbatim>\<open>factorial(n)\<close> returns the exact integer \<open>n!\<close>,
  provided the interpreter allows the \<open>n + 1\<close> nested calls the recursion makes; in
  particular \<^verbatim>\<open>factorial(0)\<close> is 1 and \<^verbatim>\<open>factorial(5)\<close> is 120.
\<close>

theorem factorial_exact:
  assumes "0 \<le> n" and "nat n < d"
  shows "factorial d n = Inr (fact (nat n))"
  using assms by (rule factorial_returns)

theorem factorial_exact_witness:
  "factorial 1 0 = Inr 1 \<and> factorial 6 5 = Inr 120"
proof -
  have "factorial 1 0 = Inr (fact (nat 0))"
    by (rule factorial_exact) simp_all
  moreover have "factorial 6 5 = Inr (fact (nat 5))"
    by (rule factorial_exact) simp_all
  moreover have "fact (nat 5) = (120 :: int)"
    by (simp add: eval_nat_numeral)
  ultimately show ?thesis by simp
qed

subsection \<open>Arguments below the documented range\<close>

lemma range_py_nonpos: "n \<le> 0 \<Longrightarrow> range_py n = []"
  by (simp add: range_py_def)

lemma chud_finish_zero: "chud_finish (PInt 0) = Inl ZeroDivisionError"
  by (simp add: chud_finish_def py_int_mul_def py_int_div_def int_truediv_def)

lemma rama_finish_zero: "rama_finish (PInt 0) = Inl ZeroDivisionError"
  by code_simp

lemma chud_no_terms:
  "n \<le> 0 \<Longrightarrow> estimate_pi_chudnovsky d n = Inl ZeroDivisionError"
  by (simp add: estimate_pi_chudnovsky_def range_py_nonpos chud_finish_zero)

lemma rama_no_terms:
  "n \<le> 0 \<Longrightarrow> estimate_pi_ramanujan d n = Inl ZeroDivisionError"
  by (simp add: estimate_pi_ramanujan_def range_py_nonpos rama_finish_zero)

text \<open>
  C4, as the code has it. For every integer \<open>n < 0\<close>, \<^verbatim>\<open>factorial(n)\<close> returns no
  value: the argument is not checked, the recursion goes down from \<open>n\<close> without ever
  meeting 0, and the call ends in \<^verbatim>\<open>RecursionError\<close> when the interpreter allows no
  further nested call, however many it allows.
\<close>

theorem factorial_negative_recursion_error:
  assumes "n < 0"
  shows "factorial d n = Inl RecursionError"
  using assms by (rule factorial_negative)

theorem factorial_negative_recursion_error_witness:
  "factorial 3 (- 1) = Inl RecursionError \<and> factorial 50 (- 7) = Inl RecursionError"
proof -
  have "factorial 3 (- 1) = Inl RecursionError"
    by (rule factorial_negative_recursion_error) simp
  moreover have "factorial 50 (- 7) = Inl RecursionError"
    by (rule factorial_negative_recursion_error) simp
  ultimately show ?thesis by simp
qed

text \<open>
  C4, as the specification states it, fails: \<^verbatim>\<open>factorial(-1)\<close> is not rejected with an
  invalid-argument error. With the 1000 nested calls CPython allows by default it
  recurses through all of them and raises \<^verbatim>\<open>RecursionError\<close>.
\<close>

theorem factorial_minus_one_not_rejected:
  "factorial 1000 (- 1) = Inl RecursionError \<and> factorial 1000 (- 1) \<noteq> Inl ValueError"
proof -
  have "factorial 1000 (- 1) = Inl RecursionError"
    by (rule factorial_negative) simp
  then show ?thesis by simp
qed

text \<open>
  C5, as the code has it. For every negative term count both estimators fail with
  \<^verbatim>\<open>ZeroDivisionError\<close>: \<^verbatim>\<open>range(num_terms)\<close> is empty, the sum stays the integer 0,
  and the reciprocal after the loop divides by zero. The term count is not checked.
\<close>

theorem negative_term_count_division_by_zero:
  assumes "n < 0"
  shows "estimate_pi_chudnovsky d n = Inl ZeroDivisionError \<and>
         estimate_pi_ramanujan d n = Inl ZeroDivisionError"
  using assms by (simp add: chud_no_terms rama_no_terms)

theorem negative_term_count_division_by_zero_witness:
  "estimate_pi_chudnovsky 1000 (- 2) = Inl ZeroDivisionError \<and>
   estimate_pi_ramanujan 1000 (- 2) = Inl ZeroDivisionError"
  by (rule negative_term_count_division_by_zero) simp

text \<open>
  C5, as the specification states it, fails: with term count \<open>- 1\<close> neither estimator
  raises an invalid-argument error; each runs to its last statement and raises
  \<^verbatim>\<open>ZeroDivisionError\<close> there.
\<close>

theorem negative_term_count_not_rejected:
  "estimate_pi_chudnovsky 1000 (- 1) = Inl ZeroDivisionError \<and>
   estimate_pi_chudnovsky 1000 (- 1) \<noteq> Inl ValueError \<and>
   estimate_pi_ramanujan 1000 (- 1) = Inl ZeroDivisionError \<and>
   estimate_pi_ramanujan 1000 (- 1) \<noteq> Inl ValueError"
  by (simp add: chud_no_terms rama_no_terms)

text \<open>
  C10. For a term count of 0 or less, the loop body of either estimator never runs
  (\<^verbatim>\<open>range(num_terms)\<close> is empty), the sum is left at the integer 0, and the call
  raises \<^verbatim>\<open>ZeroDivisionError\<close> in the reciprocal of its last statement instead of
  returning a value.
\<close>

theorem no_terms_division_by_zero:
  assumes "n \<le> 0"
  shows "range_py n = [] \<and>
         chud_loop d (range_py n) (PInt 0) = Inr (PInt 0) \<and>
         chud_finish (PInt 0) = Inl ZeroDivisionError \<and>
         estimate_pi_chudnovsky d n = Inl ZeroDivisionError \<and>
         rama_loop d (range_py n) (PInt 0) = Inr (PInt 0) \<and>
         rama_finish (PInt 0) = Inl ZeroDivisionError \<and>
         estimate_pi_ramanujan d n = Inl ZeroDivisionError"
  using assms
  by (simp add: range_py_nonpos chud_finish_zero rama_finish_zero chud_no_terms rama_no_terms)

theorem no_terms_division_by_zero_witness:
  "range_py 0 = [] \<and>
   chud_loop 1000 (range_py 0) (PInt 0) = Inr (PInt 0) \<and>
   chud_finish (PInt 0) = Inl ZeroDivisionError \<and>
   estimate_pi_chudnovsky 1000 0 = Inl ZeroDivisionError \<and>
   rama_loop 1000 (range_py 0) (PInt 0) = Inr (PInt 0) \<and>
   rama_finish (PInt 0) = Inl ZeroDivisionError \<and>
   estimate_pi_ramanujan 1000 0 = Inl ZeroDivisionError"
  by (rule no_terms_division_by_zero) simp

subsection \<open>The recursion limit does not matter once it is large enough\<close>

lemma chud_step_depth:
  assumes "0 \<le> k" "nat (6 * k) < d" "nat (6 * k) < d'"
  shows "chud_step d k s = chud_step d' k s"
proof -
  have "nat (3 * k) < d" "nat k < d" "nat (3 * k) < d'" "nat k < d'"
    using assms by linarith+
  then show ?thesis
    using assms
    by (simp add: chud_step_def chud_numerator_def chud_denominator_def factorial_returns)
qed

lemma chud_loop_depth:
  assumes "\<forall>k \<in> set ks. 0 \<le> k \<and> nat (6 * k) < d \<and> nat (6 * k) < d'"
  shows "chud_loop d ks s = chud_loop d' ks s"
  using assms
proof (induction ks arbitrary: s)
  case Nil
  show ?case by simp
next
  case (Cons k ks)
  have "chud_step d k s = chud_step d' k s"
    using Cons.prems by (intro chud_step_depth) simp_all
  moreover have "chud_loop d ks t = chud_loop d' ks t" for t
    using Cons.prems by (intro Cons.IH) simp
  ultimately show ?case
    by (cases "chud_step d' k s") simp_all
qed

lemma range_py_bounds: "k \<in> set (range_py n) \<Longrightarrow> 0 \<le> k \<and> k < n"
  by (auto simp: range_py_def)

lemma estimate_pi_chudnovsky_depth:
  assumes "6 * (n - 1) < int d" "6 * (n - 1) < int d'"
  shows "estimate_pi_chudnovsky d n = estimate_pi_chudnovsky d' n"
proof -
  have "chud_loop d (range_py n) (PInt 0) = chud_loop d' (range_py n) (PInt 0)"
  proof (rule chud_loop_depth, rule ballI)
    fix k assume "k \<in> set (range_py n)"
    then have "0 \<le> k \<and> k < n" by (rule range_py_bounds)
    with assms show "0 \<le> k \<and> nat (6 * k) < d \<and> nat (6 * k) < d'" by auto
  qed
  then show ?thesis by (simp add: estimate_pi_chudnovsky_def)
qed

lemma rama_step_depth:
  assumes "0 \<le> k" "nat (4 * k) < d" "nat (4 * k) < d'"
  shows "rama_step d k s = rama_step d' k s"
proof -
  have "nat k < d" "nat k < d'"
    using assms by linarith+
  then show ?thesis
    using assms
    by (simp add: rama_step_def rama_numerator_def rama_denominator_def factorial_returns)
qed

lemma rama_loop_depth:
  assumes "\<forall>k \<in> set ks. 0 \<le> k \<and> nat (4 * k) < d \<and> nat (4 * k) < d'"
  shows "rama_loop d ks s = rama_loop d' ks s"
  using assms
proof (induction ks arbitrary: s)
  case Nil
  show ?case by simp
next
  case (Cons k ks)
  have "rama_step d k s = rama_step d' k s"
    using Cons.prems by (intro rama_step_depth) simp_all
  moreover have "rama_loop d ks t = rama_loop d' ks t" for t
    using Cons.prems by (intro Cons.IH) simp
  ultimately show ?case
    by (cases "rama_step d' k s") simp_all
qed

lemma estimate_pi_ramanujan_depth:
  assumes "4 * (n - 1) < int d" "4 * (n - 1) < int d'"
  shows "estimate_pi_ramanujan d n = estimate_pi_ramanujan d' n"
proof -
  have "rama_loop d (range_py n) (PInt 0) = rama_loop d' (range_py n) (PInt 0)"
  proof (rule rama_loop_depth, rule ballI)
    fix k assume "k \<in> set (range_py n)"
    then have "0 \<le> k \<and> k < n" by (rule range_py_bounds)
    with assms show "0 \<le> k \<and> nat (4 * k) < d \<and> nat (4 * k) < d'" by auto
  qed
  then show ?thesis by (simp add: estimate_pi_ramanujan_def)
qed

subsection \<open>Bounds on pi\<close>

text \<open>Machin's formula and the alternating series of the arc tangent give pi to 18 digits.\<close>

lemma arctan_partial_bounds:
  fixes x :: real
  assumes "0 \<le> x" "x \<le> 1"
  shows "(\<Sum>i<2 * n. (- 1) ^ i * (1 / real (i * 2 + 1) * x ^ (i * 2 + 1))) \<le> arctan x"
    and "arctan x \<le> (\<Sum>i<2 * n + 1. (- 1) ^ i * (1 / real (i * 2 + 1) * x ^ (i * 2 + 1)))"
proof -
  let ?a = "\<lambda>i. 1 / real (i * 2 + 1) * x ^ (i * 2 + 1)"
  have abs: "\<bar>x\<bar> \<le> 1" using assms by simp
  have zero: "?a \<longlonglongrightarrow> 0" by (rule zeroseq_arctan_series [OF abs])
  have pos: "0 \<le> ?a i" for i using assms by simp
  have mono: "?a (Suc i) \<le> ?a i" for i
  proof -
    have "x ^ (Suc i * 2 + 1) \<le> x ^ (i * 2 + 1)"
      using assms by (intro power_decreasing) simp_all
    moreover have "1 / real (Suc i * 2 + 1) \<le> 1 / real (i * 2 + 1)"
      by (intro divide_left_mono) simp_all
    ultimately show ?thesis
      using assms by (intro mult_mono) simp_all
  qed
  have eq: "arctan x = (\<Sum>i. (- 1) ^ i * ?a i)"
    by (rule arctan_series [OF abs])
  show "(\<Sum>i<2 * n. (- 1) ^ i * ?a i) \<le> arctan x"
    unfolding eq using zero pos mono by (rule summable_Leibniz'(2))
  show "arctan x \<le> (\<Sum>i<2 * n + 1. (- 1) ^ i * ?a i)"
    unfolding eq using zero pos mono by (rule summable_Leibniz'(4))
qed

lemma arctan_fifth_bounds:
  "197395559849880758370 / 10 ^ 21 \<le> arctan (1 / 5)"
  "arctan (1 / 5) \<le> 197395559849880758371 / 10 ^ 21"
proof -
  have "(197395559849880758370 / 10 ^ 21 :: real)
      \<le> (\<Sum>i<2 * 8. (- 1) ^ i * (1 / real (i * 2 + 1) * (1 / 5) ^ (i * 2 + 1)))"
    by (simp add: lessThan_nat_numeral lessThan_Suc power_one_over)
  also have "\<dots> \<le> arctan (1 / 5)"
    by (rule arctan_partial_bounds(1)) simp_all
  finally show "197395559849880758370 / 10 ^ 21 \<le> arctan (1 / 5)" .
  have "arctan (1 / 5)
      \<le> (\<Sum>i<2 * 8 + 1. (- 1) ^ i * (1 / real (i * 2 + 1) * (1 / 5) ^ (i * 2 + 1)))"
    by (rule arctan_partial_bounds(2)) simp_all
  also have "\<dots> \<le> 197395559849880758371 / 10 ^ 21"
    by (simp add: lessThan_nat_numeral lessThan_Suc power_one_over)
  finally show "arctan (1 / 5) \<le> 197395559849880758371 / 10 ^ 21" .
qed

lemma arctan_239th_bounds:
  "4184076002074723864 / 10 ^ 21 \<le> arctan (1 / 239)"
  "arctan (1 / 239) \<le> 4184076002074723865 / 10 ^ 21"
proof -
  have "(4184076002074723864 / 10 ^ 21 :: real)
      \<le> (\<Sum>i<2 * 2. (- 1) ^ i * (1 / real (i * 2 + 1) * (1 / 239) ^ (i * 2 + 1)))"
    by (simp add: lessThan_nat_numeral lessThan_Suc power_one_over)
  also have "\<dots> \<le> arctan (1 / 239)"
    by (rule arctan_partial_bounds(1)) simp_all
  finally show "4184076002074723864 / 10 ^ 21 \<le> arctan (1 / 239)" .
  have "arctan (1 / 239)
      \<le> (\<Sum>i<2 * 2 + 1. (- 1) ^ i * (1 / real (i * 2 + 1) * (1 / 239) ^ (i * 2 + 1)))"
    by (rule arctan_partial_bounds(2)) simp_all
  also have "\<dots> \<le> 4184076002074723865 / 10 ^ 21"
    by (simp add: lessThan_nat_numeral lessThan_Suc power_one_over)
  finally show "arctan (1 / 239) \<le> 4184076002074723865 / 10 ^ 21" .
qed

lemma pi_bounds:
  "3141592653589793238 / 10 ^ 18 < pi" "pi < 3141592653589793239 / 10 ^ 18"
proof -
  have pi_eq: "pi = 16 * arctan (1 / 5) - 4 * arctan (1 / 239)"
    using machin by simp
  show "3141592653589793238 / 10 ^ 18 < pi"
    using arctan_fifth_bounds(1) arctan_239th_bounds(2) unfolding pi_eq by simp
  show "pi < 3141592653589793239 / 10 ^ 18"
    using arctan_fifth_bounds(2) arctan_239th_bounds(1) unfolding pi_eq by simp
qed

subsection \<open>The values the notebook printed\<close>

lemma chud_1_at_19: "estimate_pi_chudnovsky 19 1 = Inr (Fin 7074237752028308 (- 51))"
  by code_simp

lemma chud_4_at_19: "estimate_pi_chudnovsky 19 4 = Inr (Fin 7074237752028441 (- 51))"
  by code_simp

lemma rama_1_at_13: "estimate_pi_ramanujan 13 1 = Inr (Fin 7074237924118891 (- 51))"
  by code_simp

lemma rama_4_at_13: "estimate_pi_ramanujan 13 4 = Inr (Fin 7074237752028440 (- 51))"
  by code_simp

lemma literal_chud_1: "float_literal 31415926535897345 16 = Fin 7074237752028308 (- 51)"
  by code_simp

lemma literal_chud_4: "float_literal 31415926535897936 16 = Fin 7074237752028441 (- 51)"
  by code_simp

lemma literal_rama_1: "float_literal 31415927300133055 16 = Fin 7074237924118891 (- 51)"
  by code_simp

lemma literal_math_pi: "float_literal 3141592653589793 15 = math_pi"
  unfolding math_pi_def by code_simp

text \<open>
  C6. In binary64 arithmetic the Chudnovsky estimator returns, for one term, the
  float \<^verbatim>\<open>3.1415926535897345\<close>, which is less than \<open>10 ^ - 13\<close> away from pi (and
  from \<^verbatim>\<open>math.pi\<close>); for four terms it returns \<^verbatim>\<open>3.1415926535897936\<close>, the value
  the notebook printed, which is less than \<open>10 ^ - 15\<close> away from pi (and from
  \<^verbatim>\<open>math.pi\<close>). Four terms need 19 nested calls of \<^verbatim>\<open>factorial\<close>.
\<close>

theorem chudnovsky_reference_values:
  assumes "18 < d"
  shows "estimate_pi_chudnovsky d 1 = Inr (float_literal 31415926535897345 16) \<and>
         \<bar>valof (float_literal 31415926535897345 16) - valof math_pi\<bar> < 1 / 10 ^ 13 \<and>
         \<bar>valof (float_literal 31415926535897345 16) - pi\<bar> < 1 / 10 ^ 13 \<and>
         estimate_pi_chudnovsky d 4 = Inr (float_literal 31415926535897936 16) \<and>
         \<bar>valof (float_literal 31415926535897936 16) - valof math_pi\<bar> < 1 / 10 ^ 15 \<and>
         \<bar>valof (float_literal 31415926535897936 16) - pi\<bar> < 1 / 10 ^ 15"
proof -
  have "estimate_pi_chudnovsky d 1 = estimate_pi_chudnovsky 19 1"
    using assms by (intro estimate_pi_chudnovsky_depth) simp_all
  moreover have "estimate_pi_chudnovsky d 4 = estimate_pi_chudnovsky 19 4"
    using assms by (intro estimate_pi_chudnovsky_depth) simp_all
  ultimately show ?thesis
    using pi_bounds
    by (simp add: chud_1_at_19 chud_4_at_19 literal_chud_1 literal_chud_4 valof_def math_pi_def)
qed

theorem chudnovsky_reference_values_witness:
  "estimate_pi_chudnovsky 1000 1 = Inr (float_literal 31415926535897345 16) \<and>
   \<bar>valof (float_literal 31415926535897345 16) - valof math_pi\<bar> < 1 / 10 ^ 13 \<and>
   \<bar>valof (float_literal 31415926535897345 16) - pi\<bar> < 1 / 10 ^ 13 \<and>
   estimate_pi_chudnovsky 1000 4 = Inr (float_literal 31415926535897936 16) \<and>
   \<bar>valof (float_literal 31415926535897936 16) - valof math_pi\<bar> < 1 / 10 ^ 15 \<and>
   \<bar>valof (float_literal 31415926535897936 16) - pi\<bar> < 1 / 10 ^ 15"
  by (rule chudnovsky_reference_values) simp

text \<open>
  C7. In binary64 arithmetic the Ramanujan--Sato estimator returns, for one term, the
  float \<^verbatim>\<open>3.1415927300133055\<close>, which is less than \<open>10 ^ - 7\<close> away from pi (and from
  \<^verbatim>\<open>math.pi\<close>); for four terms it returns \<^verbatim>\<open>3.141592653589793\<close>, which is
  \<^verbatim>\<open>math.pi\<close> itself and less than \<open>10 ^ - 15\<close> away from pi. Four terms need 13
  nested calls of \<^verbatim>\<open>factorial\<close>.
\<close>

theorem ramanujan_reference_values:
  assumes "12 < d"
  shows "estimate_pi_ramanujan d 1 = Inr (float_literal 31415927300133055 16) \<and>
         \<bar>valof (float_literal 31415927300133055 16) - valof math_pi\<bar> < 1 / 10 ^ 7 \<and>
         \<bar>valof (float_literal 31415927300133055 16) - pi\<bar> < 1 / 10 ^ 7 \<and>
         estimate_pi_ramanujan d 4 = Inr (float_literal 3141592653589793 15) \<and>
         \<bar>valof (float_literal 3141592653589793 15) - valof math_pi\<bar> < 1 / 10 ^ 15 \<and>
         \<bar>valof (float_literal 3141592653589793 15) - pi\<bar> < 1 / 10 ^ 15"
proof -
  have "estimate_pi_ramanujan d 1 = estimate_pi_ramanujan 13 1"
    using assms by (intro estimate_pi_ramanujan_depth) simp_all
  moreover have "estimate_pi_ramanujan d 4 = estimate_pi_ramanujan 13 4"
    using assms by (intro estimate_pi_ramanujan_depth) simp_all
  ultimately show ?thesis
    using pi_bounds
    by (simp add: rama_1_at_13 rama_4_at_13 literal_rama_1 literal_math_pi valof_def math_pi_def)
qed

theorem ramanujan_reference_values_witness:
  "estimate_pi_ramanujan 1000 1 = Inr (float_literal 31415927300133055 16) \<and>
   \<bar>valof (float_literal 31415927300133055 16) - valof math_pi\<bar> < 1 / 10 ^ 7 \<and>
   \<bar>valof (float_literal 31415927300133055 16) - pi\<bar> < 1 / 10 ^ 7 \<and>
   estimate_pi_ramanujan 1000 4 = Inr (float_literal 3141592653589793 15) \<and>
   \<bar>valof (float_literal 3141592653589793 15) - valof math_pi\<bar> < 1 / 10 ^ 15 \<and>
   \<bar>valof (float_literal 3141592653589793 15) - pi\<bar> < 1 / 10 ^ 15"
  by (rule ramanujan_reference_values) simp

subsection \<open>Rounding: the logarithm, the nearest integer, and absorption\<close>

lemma p2_add: "(2::real) powi (a + b) = 2 powi a * 2 powi b"
  by (simp add: power_int_add)

lemma p2_diff: "(2::real) powi (a - b) = 2 powi a / 2 powi b"
  by (simp add: power_int_diff)

lemma p2_nat: "0 \<le> e \<Longrightarrow> (2::real) powi e = 2 ^ nat e"
  by (simp add: power_int_def)

lemma p2_mono: "a \<le> b \<Longrightarrow> (2::real) powi a \<le> 2 powi b"
  by (rule power_int_increasing) simp_all

lemma p2_strict_mono: "a < b \<Longrightarrow> (2::real) powi a < 2 powi b"
  by (rule power_int_strict_increasing) simp_all

lemma shift_ratio:
  assumes "0 < b"
  shows "real_of_int (a * 2 ^ nat (- e)) / real_of_int (b * 2 ^ nat e)
       = real_of_int a / real_of_int b / 2 powi e"
proof (cases "0 \<le> e")
  case True
  then show ?thesis by (simp add: p2_nat)
next
  case False
  then have eq: "(2::real) powi e = 1 / 2 ^ nat (- e)"
    by (simp add: power_int_def power_one_over)
  show ?thesis unfolding eq using False by simp
qed

lemma bitlen_real_bounds:
  assumes "0 < a"
  shows "2 powi (bitlen a - 1) \<le> real_of_int a" "real_of_int a < 2 powi bitlen a"
proof -
  have pos: "1 \<le> bitlen a" using assms by (simp add: bitlen_alt_def)
  have "2 ^ nat (bitlen a - 1) \<le> a" "a < 2 ^ nat (bitlen a)"
    using bitlen_bounds [OF assms] by simp_all
  then have "real_of_int (2 ^ nat (bitlen a - 1)) \<le> real_of_int a"
    "real_of_int a < real_of_int (2 ^ nat (bitlen a))"
    by linarith+
  then show "2 powi (bitlen a - 1) \<le> real_of_int a" "real_of_int a < 2 powi bitlen a"
    using pos by (simp_all add: p2_nat)
qed

lemma floor_log2_test:
  assumes "0 < a" "0 < b"
  shows "b * 2 ^ nat d \<le> a * 2 ^ nat (- d) \<longleftrightarrow> 2 powi d \<le> real_of_int a / real_of_int b"
proof -
  define x where "x = real_of_int a / real_of_int b"
  have p: "(0::real) < 2 powi d" by simp
  have "b * 2 ^ nat d \<le> a * 2 ^ nat (- d)
    \<longleftrightarrow> real_of_int (b * 2 ^ nat d) \<le> real_of_int (a * 2 ^ nat (- d))"
    by linarith
  also have "\<dots> \<longleftrightarrow> 1 \<le> real_of_int (a * 2 ^ nat (- d)) / real_of_int (b * 2 ^ nat d)"
    using assms by (simp add: field_simps)
  also have "\<dots> \<longleftrightarrow> 1 \<le> x / 2 powi d"
    using assms by (simp only: shift_ratio x_def)
  also have "\<dots> \<longleftrightarrow> 2 powi d \<le> x"
    using p by (simp add: pos_le_divide_eq)
  finally show ?thesis by (simp only: x_def)
qed

lemma floor_log2_bounds:
  assumes "0 < a" "0 < b"
  shows "2 powi (floor_log2 a b) \<le> real_of_int a / real_of_int b"
    and "real_of_int a / real_of_int b < 2 powi (floor_log2 a b + 1)"
proof -
  define d where "d = bitlen a - bitlen b"
  have a: "2 powi (bitlen a - 1) \<le> real_of_int a" "real_of_int a < 2 powi bitlen a"
    using bitlen_real_bounds [OF assms(1)] by simp_all
  have b: "2 powi (bitlen b - 1) \<le> real_of_int b" "real_of_int b < 2 powi bitlen b"
    using bitlen_real_bounds [OF assms(2)] by simp_all
  have bpos: "0 < real_of_int b" using assms by simp
  have apos: "0 < real_of_int a" using assms by simp
  have up: "real_of_int a / real_of_int b < 2 powi (d + 1)"
  proof -
    have "real_of_int a / real_of_int b < 2 powi bitlen a / real_of_int b"
      using a(2) bpos by (simp add: divide_strict_right_mono)
    also have "\<dots> \<le> 2 powi bitlen a / 2 powi (bitlen b - 1)"
      using b(1) bpos by (intro divide_left_mono) simp_all
    also have "\<dots> = 2 powi (d + 1)"
      by (simp add: d_def p2_diff [symmetric] algebra_simps)
    finally show ?thesis .
  qed
  have low: "2 powi (d - 1) \<le> real_of_int a / real_of_int b"
  proof -
    have "(2::real) powi (d - 1) = 2 powi (bitlen a - 1) / 2 powi bitlen b"
      by (simp add: d_def p2_diff [symmetric] algebra_simps)
    also have "\<dots> \<le> real_of_int a / 2 powi bitlen b"
      using a(1) by (simp add: divide_right_mono)
    also have "\<dots> \<le> real_of_int a / real_of_int b"
      using b(2) apos bpos by (intro divide_left_mono) simp_all
    finally show ?thesis .
  qed
  have test: "b * 2 ^ nat d \<le> a * 2 ^ nat (- d) \<longleftrightarrow> 2 powi d \<le> real_of_int a / real_of_int b"
    by (rule floor_log2_test [OF assms])
  show "2 powi (floor_log2 a b) \<le> real_of_int a / real_of_int b"
    using test low by (simp add: floor_log2_def d_def [symmetric] Let_def)
  show "real_of_int a / real_of_int b < 2 powi (floor_log2 a b + 1)"
    using test up by (auto simp add: floor_log2_def d_def [symmetric] Let_def)
qed

lemma floor_log2_unique:
  assumes "0 < a" "0 < b"
    and "2 powi l \<le> real_of_int a / real_of_int b"
    and "real_of_int a / real_of_int b < 2 powi (l + 1)"
  shows "floor_log2 a b = l"
proof -
  let ?f = "floor_log2 a b"
  have "2 powi ?f < (2::real) powi (l + 1)"
    using floor_log2_bounds(1) [OF assms(1,2)] assms(4) by linarith
  then have "?f < l + 1"
    by (metis not_less p2_mono leD)
  moreover have "2 powi l < (2::real) powi (?f + 1)"
    using floor_log2_bounds(2) [OF assms(1,2)] assms(3) by linarith
  then have "l < ?f + 1"
    by (metis not_less p2_mono leD)
  ultimately show ?thesis by linarith
qed

lemma rne_below_half:
  assumes "0 < d"
    and "real_of_int q \<le> real_of_int n / real_of_int d"
    and "real_of_int n / real_of_int d < real_of_int q + 1 / 2"
  shows "rne n d = q"
proof -
  have dpos: "0 < real_of_int d" using assms(1) by simp
  have "real_of_int q * real_of_int d \<le> real_of_int n"
    using assms(2) dpos by (simp add: pos_le_divide_eq)
  then have "real_of_int (q * d) \<le> real_of_int n" by simp
  then have low: "q * d \<le> n" by linarith
  have "real_of_int n < (real_of_int q + 1 / 2) * real_of_int d"
    using assms(3) dpos by (simp add: pos_divide_less_eq)
  then have "real_of_int (2 * n) < real_of_int ((2 * q + 1) * d)"
    by (simp add: algebra_simps)
  then have up: "2 * n < (2 * q + 1) * d" by linarith
  define r where "r = n - q * d"
  have r: "0 \<le> r" "2 * r < d" "n = q * d + r"
    using low up by (simp_all add: r_def algebra_simps)
  then have "r < d" by linarith
  have "n div d = q"
    using r \<open>r < d\<close> assms(1) by simp
  moreover have "n mod d = r"
    using r \<open>r < d\<close> assms(1) by simp
  ultimately show ?thesis
    using r by (simp add: rne_def Let_def)
qed

lemma rne_bounds:
  assumes "0 < d" "0 \<le> n"
  shows "0 \<le> rne n d"
    and "real_of_int (rne n d) \<le> real_of_int n / real_of_int d + 1 / 2"
proof -
  define q where "q = n div d"
  define r where "r = n mod d"
  have n: "n = q * d + r" by (simp add: q_def r_def)
  have r: "0 \<le> r" "r < d" using assms(1) by (simp_all add: r_def)
  have q: "0 \<le> q" using assms by (simp add: q_def pos_imp_zdiv_nonneg_iff)
  have dpos: "0 < real_of_int d" using assms(1) by simp
  have ratio: "real_of_int n / real_of_int d = real_of_int q + real_of_int r / real_of_int d"
    using dpos by (simp add: n field_simps)
  have cases: "rne n d = q \<or> (rne n d = q + 1 \<and> d \<le> 2 * r)"
    by (auto simp add: rne_def Let_def q_def r_def)
  show "0 \<le> rne n d" using cases q by auto
  define f where "f = real_of_int r / real_of_int d"
  have f0: "0 \<le> f" using r dpos by (simp add: f_def)
  have fh: "1 / 2 \<le> f" if "d \<le> 2 * r"
  proof -
    have "real_of_int d \<le> 2 * real_of_int r" using that by linarith
    then have "real_of_int d / 2 \<le> real_of_int r" by simp
    then have "real_of_int d * (1 / 2) \<le> real_of_int r" by simp
    then show ?thesis using dpos by (simp add: f_def pos_le_divide_eq mult.commute)
  qed
  have ratio': "real_of_int n / real_of_int d = real_of_int q + f"
    by (simp add: ratio f_def)
  from cases show "real_of_int (rne n d) \<le> real_of_int n / real_of_int d + 1 / 2"
  proof (elim disjE conjE)
    assume "rne n d = q"
    then show ?thesis unfolding ratio' using f0 by linarith
  next
    assume "rne n d = q + 1" "d \<le> 2 * r"
    then have "real_of_int (rne n d) = real_of_int q + 1" "1 / 2 \<le> f"
      using fh by simp_all
    then show ?thesis unfolding ratio' by linarith
  qed
qed

lemma round64_down:
  assumes "0 < a" "0 < b"
    and "2 ^ 52 \<le> M" "M < 2 ^ 53" "- 1074 \<le> E" "E \<le> 971"
    and "real_of_int M * 2 powi E \<le> real_of_int a / real_of_int b"
    and "real_of_int a / real_of_int b < (real_of_int M + 1 / 2) * 2 powi E"
  shows "round64 a b = Fin M E"
proof -
  define x where "x = real_of_int a / real_of_int b"
  have pE: "(0::real) < 2 powi E" by simp
  have "real_of_int (2 ^ 52) \<le> real_of_int M"
    using assms(3) by (simp only: of_int_le_iff)
  moreover have "real_of_int (M + 1) \<le> real_of_int (2 ^ 53)"
    using assms(4) by (simp only: of_int_le_iff)
  ultimately have M: "(2::real) ^ 52 \<le> real_of_int M" "real_of_int M + 1 / 2 \<le> 2 ^ 53"
    by simp_all
  have "2 powi (E + 52) = (2::real) ^ 52 * 2 powi E"
    by (simp add: p2_add)
  also have "\<dots> \<le> real_of_int M * 2 powi E"
    using M(1) pE by (intro mult_right_mono) simp_all
  finally have low: "2 powi (E + 52) \<le> x"
    using assms(7) by (simp add: x_def)
  have "x < (real_of_int M + 1 / 2) * 2 powi E"
    using assms(8) by (simp add: x_def)
  also have "\<dots> \<le> 2 ^ 53 * 2 powi E"
    using M(2) pE by (intro mult_right_mono) simp_all
  also have "\<dots> = 2 powi (E + 52 + 1)"
    by (simp add: p2_add)
  finally have up: "x < 2 powi (E + 52 + 1)" .
  have fl: "floor_log2 a b = E + 52"
    using assms(1,2) low up unfolding x_def by (rule floor_log2_unique)
  have e: "max (floor_log2 a b - 52) (- 1074) = E"
    using assms(5) by (simp add: fl)
  have ratio: "real_of_int (a * 2 ^ nat (- E)) / real_of_int (b * 2 ^ nat E) = x / 2 powi E"
    using assms(2) by (simp only: shift_ratio x_def)
  have "rne (a * 2 ^ nat (- E)) (b * 2 ^ nat E) = M"
  proof (rule rne_below_half)
    show "0 < b * 2 ^ nat E" using assms(2) by simp
    have "real_of_int M * 2 powi E \<le> x"
      using assms(7) by (simp only: x_def)
    then show "real_of_int M \<le> real_of_int (a * 2 ^ nat (- E)) / real_of_int (b * 2 ^ nat E)"
      unfolding ratio using pE by (simp add: pos_le_divide_eq)
    have "x < (real_of_int M + 1 / 2) * 2 powi E"
      using assms(8) by (simp only: x_def)
    then show "real_of_int (a * 2 ^ nat (- E)) / real_of_int (b * 2 ^ nat E) < real_of_int M + 1 / 2"
      unfolding ratio using pE by (simp add: pos_divide_less_eq)
  qed
  then have "round_pos a b = (M, E)"
    using assms(4) by (simp add: round_pos_def e carry_def Let_def)
  then show ?thesis
    using assms(1,3,6) by (simp add: round64_def pack_def)
qed

lemma round64_small:
  assumes "0 < a" "0 < b"
    and "real_of_int a / real_of_int b \<le> 2 powi B" "- 1074 \<le> B" "B \<le> 0"
  shows "\<exists>m e. round64 a b = Fin m e \<and> 0 \<le> m \<and> real_of_int m * 2 powi e \<le> 2 powi (B + 1)"
proof -
  define x where "x = real_of_int a / real_of_int b"
  define l where "l = floor_log2 a b"
  define e where "e = max (l - 52) (- 1074)"
  define m where "m = rne (a * 2 ^ nat (- e)) (b * 2 ^ nat e)"
  have xB: "x \<le> 2 powi B" using assms(3) by (simp only: x_def)
  have "2 powi l \<le> x"
    unfolding l_def x_def using assms(1,2) by (rule floor_log2_bounds(1))
  then have "(2::real) powi l \<le> 2 powi B"
    using xB by (rule order_trans)
  then have l: "l \<le> B"
    by (metis not_less p2_strict_mono leD)
  have e: "e \<le> B" "- 1074 \<le> e" using l assms(4) by (simp_all add: e_def)
  have pe: "(0::real) < 2 powi e" by simp
  have ratio: "real_of_int (a * 2 ^ nat (- e)) / real_of_int (b * 2 ^ nat e) = x / 2 powi e"
    using assms(2) by (simp only: shift_ratio x_def)
  have dn: "0 < b * 2 ^ nat e" "0 \<le> a * 2 ^ nat (- e)"
    using assms(1,2) by simp_all
  have m: "0 \<le> m" "real_of_int m \<le> x / 2 powi e + 1 / 2"
    using rne_bounds [OF dn] unfolding ratio m_def by blast+
  have "real_of_int m * 2 powi e \<le> (x / 2 powi e + 1 / 2) * 2 powi e"
    using m(2) pe by (intro mult_right_mono) simp_all
  also have "\<dots> = x + 2 powi e / 2"
    using pe by (simp add: field_simps)
  also have "\<dots> \<le> 2 powi B + 2 powi B"
  proof -
    have "(2::real) powi e \<le> 2 powi B"
      using e(1) by (rule p2_mono)
    then show ?thesis using xB pe by linarith
  qed
  also have "\<dots> = 2 powi (B + 1)" by (simp add: p2_add)
  finally have val: "real_of_int m * 2 powi e \<le> 2 powi (B + 1)" .
  have rp: "round_pos a b = carry (m, e)"
    by (simp add: round_pos_def Let_def m_def e_def l_def)
  have e971: "e + 1 \<le> 971" using e(1) assms(5) by linarith
  show ?thesis
  proof (cases "m = 2 ^ 53")
    case True
    then have "round64 a b = Fin (2 ^ 52) (e + 1)"
      using assms(1) e971 by (simp add: round64_def rp carry_def pack_def)
    moreover have "real_of_int (2 ^ 52) * 2 powi (e + 1) = real_of_int m * 2 powi e"
      using True by (simp add: p2_add)
    ultimately show ?thesis using val by auto
  next
    case False
    then have "round64 a b = (if m = 0 then Fin 0 0 else Fin m e)"
      using assms(1) e971 by (simp add: round64_def rp carry_def pack_def)
    then show ?thesis using val m(1) by auto
  qed
qed

lemma fadd_absorb:
  assumes "2 ^ 52 \<le> M" "M < 2 ^ 53" "- 1074 \<le> E" "E \<le> 971"
    and "0 \<le> m" "real_of_int m * 2 powi e < 2 powi (E - 1)"
  shows "fadd (Fin M E) (Fin m e) = Fin M E"
proof -
  define e0 where "e0 = min E e"
  define X where "X = M * 2 ^ nat (E - e0) + m * 2 ^ nat (e - e0)"
  have "(0::int) < 2 ^ 52" by simp
  then have Mpos: "0 < M" using assms(1) by linarith
  have Xpos: "0 < X"
    using Mpos assms(5) by (simp add: X_def add_pos_nonneg)
  have sE: "(2::real) ^ nat (E - e0) * 2 powi e0 = 2 powi E"
    by (simp add: e0_def p2_nat [symmetric] p2_add [symmetric])
  have se: "(2::real) ^ nat (e - e0) * 2 powi e0 = 2 powi e"
    by (simp add: e0_def p2_nat [symmetric] p2_add [symmetric])
  have Xval: "real_of_int X * 2 powi e0 = real_of_int M * 2 powi E + real_of_int m * 2 powi e"
    using sE se by (simp add: X_def algebra_simps)
  have ratio: "real_of_int (X * 2 ^ nat e0) / real_of_int (2 ^ nat (- e0)) = real_of_int X * 2 powi e0"
    using shift_ratio [of 1 X "- e0"] by (simp add: power_int_minus field_simps)
  have "round64 (X * 2 ^ nat e0) (2 ^ nat (- e0)) = Fin M E"
  proof (rule round64_down [OF _ _ assms(1-4)])
    show "0 < X * 2 ^ nat e0" using Xpos by simp
    show "(0::int) < 2 ^ nat (- e0)" by simp
    show "real_of_int M * 2 powi E \<le> real_of_int (X * 2 ^ nat e0) / real_of_int (2 ^ nat (- e0))"
      unfolding ratio Xval using assms(5) by simp
    have "real_of_int m * 2 powi e < 2 powi E / 2"
      using assms(6) by (simp add: p2_diff)
    then show "real_of_int (X * 2 ^ nat e0) / real_of_int (2 ^ nat (- e0))
        < (real_of_int M + 1 / 2) * 2 powi E"
      unfolding ratio Xval by (simp add: algebra_simps)
  qed
  then show ?thesis
    by (simp add: round_dyadic_def Let_def e0_def X_def)
qed

subsection \<open>The Ramanujan--Sato terms decrease\<close>

lemma four_factors: "(4 * k + 4) * (4 * k + 3) * (4 * k + 2) * (4 * k + 1) \<le> 256 * (k + 1) ^ 4"
  for k :: nat
proof -
  have x: "4 * k + 4 = 4 * (k + 1)" by simp
  have "(4 * k + 4) * (4 * k + 3) * (4 * k + 2) * (4 * k + 1)
      \<le> (4 * k + 4) * (4 * k + 4) * (4 * k + 4) * (4 * k + 4)"
    by (intro mult_le_mono) simp_all
  also have "\<dots> = (4 * k + 4) ^ 4"
    by (simp only: power4_eq_xxxx)
  also have "\<dots> = 256 * (k + 1) ^ 4"
    by (simp only: x power_mult_distrib) simp
  finally show ?thesis .
qed

lemma fact_plus_four:
  "fact (n + 4) = (n + 4) * (n + 3) * (n + 2) * (n + 1) * (fact n :: nat)"
proof -
  have e: "n + 4 = Suc (n + 3)" "n + 3 = Suc (n + 2)" "n + 2 = Suc (n + 1)" "n + 1 = Suc n"
    by simp_all
  have "fact (n + 4) = (n + 4) * (fact (n + 3) :: nat)"
    by (metis e(1) fact_Suc of_nat_id)
  also have "fact (n + 3) = (n + 3) * (fact (n + 2) :: nat)"
    by (metis e(2) fact_Suc of_nat_id)
  also have "fact (n + 2) = (n + 2) * (fact (n + 1) :: nat)"
    by (metis e(3) fact_Suc of_nat_id)
  also have "fact (n + 1) = (n + 1) * (fact n :: nat)"
    by (metis e(4) fact_Suc of_nat_id)
  finally show ?thesis by (simp only: mult.assoc)
qed

lemma rama_term_nonneg: "0 \<le> rama_term k"
  by (simp add: rama_term_def)

lemma rama_term_halves: "rama_term (Suc k) \<le> rama_term k / 2"
proof -
  define L where "L = 1103 + 26390 * k"
  define P where "P = (4 * k + 4) * (4 * k + 3) * (4 * k + 2) * (4 * k + 1)"
  define X where "X = (k + 1) ^ 4"
  define A :: real where "A = fact (4 * k)"
  define G :: real where "G = fact k ^ 4 * 396 ^ (4 * k)"
  have pos: "0 < A" "0 < G" "0 < X" by (simp_all add: A_def G_def X_def)
  have a: "P \<le> 256 * X" unfolding P_def X_def by (rule four_factors)
  have b: "L + 26390 \<le> 25 * L" by (simp add: L_def)
  have "2 * (P * (L + 26390)) \<le> 2 * ((256 * X) * (25 * L))"
    using mult_le_mono [OF a b] by (simp only: mult_le_cancel1) simp
  also have "\<dots> = 12800 * (X * L)" by simp
  also have "\<dots> \<le> 396 ^ 4 * (X * L)" by (intro mult_le_mono1) simp
  finally have "real (2 * (P * (L + 26390))) \<le> real (396 ^ 4 * (X * L))"
    by (simp only: of_nat_le_iff)
  then have key: "2 * (real P * real (L + 26390)) \<le> 396 ^ 4 * (real X * real L)"
    by simp
  have t0: "rama_term k = real L * (A / G)"
    by (simp add: rama_term_def L_def A_def G_def)
  have f4: "(fact (4 * Suc k) :: real) = real P * A"
  proof -
    have "4 * Suc k = 4 * k + 4" by simp
    then have "(fact (4 * Suc k) :: nat) = P * fact (4 * k)"
      by (simp only: fact_plus_four P_def)
    then have "real (fact (4 * Suc k)) = real (P * fact (4 * k))" by (rule arg_cong)
    then show ?thesis by (simp add: A_def)
  qed
  have g: "(fact (Suc k) ^ 4 * 396 ^ (4 * Suc k) :: real) = 396 ^ 4 * real X * G"
  proof -
    have "(fact (Suc k) :: real) ^ 4 = real X * fact k ^ 4"
      by (simp add: X_def power_mult_distrib)
    moreover have "(396 :: real) ^ (4 * Suc k) = 396 ^ 4 * 396 ^ (4 * k)"
    proof -
      have "4 * Suc k = 4 + 4 * k" by simp
      then show ?thesis by (simp only: power_add)
    qed
    ultimately show ?thesis by (simp add: G_def)
  qed
  have l: "(1103 + 26390 * real (Suc k)) = real (L + 26390)"
    by (simp add: L_def)
  have t1: "rama_term (Suc k) = real P * real (L + 26390) / (396 ^ 4 * real X) * (A / G)"
    unfolding rama_term_def f4 g l by simp
  have "real P * real (L + 26390) / (396 ^ 4 * real X) \<le> real L / 2"
  proof -
    have d: "(0::real) < 396 ^ 4 * real X" using pos by simp
    have "real P * real (L + 26390) \<le> real L / 2 * (396 ^ 4 * real X)"
      using key by (simp add: algebra_simps)
    then show ?thesis using d by (simp only: pos_divide_le_eq)
  qed
  then have "real P * real (L + 26390) / (396 ^ 4 * real X) * (A / G) \<le> real L / 2 * (A / G)"
    using pos by (intro mult_right_mono) simp_all
  then show ?thesis unfolding t0 t1 by simp
qed

lemma rama_term_decreasing: "j \<le> k \<Longrightarrow> rama_term k \<le> rama_term j"
proof (induction k)
  case 0
  then show ?case by simp
next
  case (Suc k)
  show ?case
  proof (cases "j = Suc k")
    case True
    then show ?thesis by simp
  next
    case False
    with Suc have "rama_term k \<le> rama_term j" by simp
    moreover have "rama_term (Suc k) \<le> rama_term k"
      using rama_term_halves [of k] rama_term_nonneg [of k] by linarith
    ultimately show ?thesis by linarith
  qed
qed

lemma rama_term_3: "rama_term 3 \<le> 2 powi (- 68)"
  by (simp add: rama_term_def fact_numeral)

subsection \<open>The Ramanujan--Sato sum is settled after three terms\<close>

lemma rama_quotient:
  "real_of_int (fact (nat (4 * int j)) * (1103 + 26390 * int j))
     / real_of_int (fact (nat (int j)) ^ 4 * 396 ^ nat (4 * int j)) = rama_term j"
proof -
  have "nat (4 * int j) = 4 * j" by simp
  then show ?thesis by (simp add: rama_term_def)
qed

lemma rama_step_saturated:
  assumes "3 \<le> k" "nat (4 * k) < d"
  shows "rama_step d k (PFloat rama_sum_3) = Inr (PFloat rama_sum_3)"
proof -
  define j where "j = nat k"
  have k: "k = int j" "3 \<le> j" using assms(1) by (simp_all add: j_def)
  define N where "N = fact (nat (4 * k)) * (1103 + 26390 * k)"
  define D :: int where "D = fact (nat k) ^ 4 * 396 ^ nat (4 * k)"
  have Npos: "0 < N" using assms(1) by (simp add: N_def)
  have Dpos: "0 < D" by (simp add: D_def)
  have "real_of_int N / real_of_int D = rama_term j"
    unfolding N_def D_def k(1) by (rule rama_quotient)
  also have "\<dots> \<le> rama_term 3" using k(2) by (rule rama_term_decreasing)
  also have "\<dots> \<le> 2 powi (- 68)" by (rule rama_term_3)
  finally have "real_of_int N / real_of_int D \<le> 2 powi (- 68)" .
  from round64_small [OF Npos Dpos this]
  obtain m e where q: "round64 N D = Fin m e" "0 \<le> m"
    "real_of_int m * 2 powi e \<le> 2 powi (- 68 + 1)"
    by auto
  have "(2::real) powi (- 68 + 1) < 2 powi (- 42 - 1)"
    by (rule p2_strict_mono) simp
  with q(3) have small: "real_of_int m * 2 powi e < 2 powi (- 42 - 1)" by linarith
  have div: "int_truediv N D = Inr (Fin m e)"
    using Dpos q(1) by (simp add: int_truediv_def finite_or_overflow_def)
  have add: "fadd rama_sum_3 (Fin m e) = rama_sum_3"
    unfolding rama_sum_3_def
    by (rule fadd_absorb [OF _ _ _ _ q(2) small]) simp_all
  have "nat k < d" using assms by linarith
  then show ?thesis
    using assms div add
    by (simp add: rama_step_def rama_numerator_def rama_denominator_def factorial_returns
        N_def [symmetric] D_def [symmetric] py_add_float_def to_float_def)
qed

lemma rama_loop_saturated:
  assumes "\<forall>k \<in> set ks. 3 \<le> k \<and> nat (4 * k) < d"
  shows "rama_loop d ks (PFloat rama_sum_3) = Inr (PFloat rama_sum_3)"
  using assms by (induction ks) (simp_all add: rama_step_saturated)

lemma rama_loop_append:
  "rama_loop d (xs @ ys) s = bind_err (rama_loop d xs s) (rama_loop d ys)"
proof (induction xs arbitrary: s)
  case Nil
  show ?case by simp
next
  case (Cons k xs)
  show ?case by (cases "rama_step d k s") (simp_all add: Cons.IH)
qed

lemma range_py_split:
  assumes "0 \<le> j" "j \<le> n"
  shows "range_py n = range_py j @ map int [nat j..<nat n]"
proof -
  have "nat j \<le> nat n" using assms by simp
  then have "[0..<nat n] = [0..<nat j] @ [nat j..<nat n]"
    using upt_add_eq_append [of 0 "nat j" "nat n - nat j"] by simp
  then show ?thesis by (simp add: range_py_def)
qed

lemma rama_loop_3_at_9: "rama_loop 9 (range_py 3) (PInt 0) = Inr (PFloat rama_sum_3)"
  unfolding rama_sum_3_def by code_simp

lemma rama_finish_sum_3: "rama_finish (PFloat rama_sum_3) = Inr math_pi"
  unfolding rama_sum_3_def math_pi_def by code_simp

lemma rama_loop_from_3:
  assumes "3 \<le> n" "4 * (n - 1) < int d"
  shows "rama_loop d (range_py n) (PInt 0) = Inr (PFloat rama_sum_3)"
proof -
  have "rama_loop d (range_py 3) (PInt 0) = rama_loop 9 (range_py 3) (PInt 0)"
  proof (rule rama_loop_depth, rule ballI)
    fix k assume "k \<in> set (range_py 3)"
    then have "0 \<le> k \<and> k < 3" by (rule range_py_bounds)
    with assms show "0 \<le> k \<and> nat (4 * k) < d \<and> nat (4 * k) < 9" by auto
  qed
  then have first: "rama_loop d (range_py 3) (PInt 0) = Inr (PFloat rama_sum_3)"
    by (simp add: rama_loop_3_at_9)
  have rest: "rama_loop d (map int [nat 3..<nat n]) (PFloat rama_sum_3) = Inr (PFloat rama_sum_3)"
  proof (rule rama_loop_saturated, rule ballI)
    fix k assume "k \<in> set (map int [nat 3..<nat n])"
    then have "3 \<le> k \<and> k < n" by auto
    with assms show "3 \<le> k \<and> nat (4 * k) < d" by auto
  qed
  have "range_py n = range_py 3 @ map int [nat 3..<nat n]"
    using assms(1) by (intro range_py_split) simp_all
  then show ?thesis
    by (simp only: rama_loop_append first rest bind_err_Inr)
qed

lemma estimate_pi_ramanujan_from_3:
  assumes "3 \<le> n" "4 * (n - 1) < int d"
  shows "estimate_pi_ramanujan d n = Inr math_pi"
  using assms by (simp add: estimate_pi_ramanujan_def rama_loop_from_3 rama_finish_sum_3)

subsection \<open>The Chudnovsky loop, iteration by iteration\<close>

lemma chud_step_at_0: "chud_step 2 0 (PInt 0) = Inr (PFloat chud_sum_1)"
  unfolding chud_sum_1_def by code_simp

lemma chud_step_at_1: "chud_step 7 1 (PFloat chud_sum_1) = Inr (PFloat chud_sum_2)"
  unfolding chud_sum_1_def chud_sum_2_def by code_simp

lemma chud_step_at_2:
  "chud_step 13 2 (PFloat chud_sum_2) = Inr (PFloat chud_sum_2)"
  unfolding chud_sum_2_def by code_simp

lemma chud_step_at_3:
  "chud_step 19 3 (PFloat chud_sum_2) = Inr (PFloat chud_sum_2)"
  unfolding chud_sum_2_def by code_simp

lemma chud_step_at_4:
  "chud_step 25 4 (PFloat chud_sum_2) = Inr (PFloat chud_sum_2)"
  unfolding chud_sum_2_def by code_simp

lemma chud_step_at_5:
  "chud_step 31 5 (PFloat chud_sum_2) = Inr (PFloat chud_sum_2)"
  unfolding chud_sum_2_def by code_simp

lemma chud_step_at_6:
  "chud_step 37 6 (PFloat chud_sum_2) = Inr (PFloat chud_sum_2)"
  unfolding chud_sum_2_def by code_simp

lemma chud_step_at_7:
  "chud_step 43 7 (PFloat chud_sum_2) = Inr (PFloat chud_sum_2)"
  unfolding chud_sum_2_def by code_simp

lemma chud_step_at_8:
  "chud_step 49 8 (PFloat chud_sum_2) = Inr (PFloat chud_sum_2)"
  unfolding chud_sum_2_def by code_simp

lemma chud_step_at_9:
  "chud_step 55 9 (PFloat chud_sum_2) = Inr (PFloat chud_sum_2)"
  unfolding chud_sum_2_def by code_simp

lemma chud_step_at_10:
  "chud_step 61 10 (PFloat chud_sum_2) = Inr (PFloat chud_sum_2)"
  unfolding chud_sum_2_def by code_simp

lemma chud_step_at_11:
  "chud_step 67 11 (PFloat chud_sum_2) = Inr (PFloat chud_sum_2)"
  unfolding chud_sum_2_def by code_simp

lemma chud_step_at_12:
  "chud_step 73 12 (PFloat chud_sum_2) = Inr (PFloat chud_sum_2)"
  unfolding chud_sum_2_def by code_simp

lemma chud_step_at_13:
  "chud_step 79 13 (PFloat chud_sum_2) = Inr (PFloat chud_sum_2)"
  unfolding chud_sum_2_def by code_simp

lemma chud_step_at_14:
  "chud_step 85 14 (PFloat chud_sum_2) = Inr (PFloat chud_sum_2)"
  unfolding chud_sum_2_def by code_simp

lemma chud_step_at_15:
  "chud_step 91 15 (PFloat chud_sum_2) = Inr (PFloat chud_sum_2)"
  unfolding chud_sum_2_def by code_simp

lemma chud_step_at_16:
  "chud_step 97 16 (PFloat chud_sum_2) = Inr (PFloat chud_sum_2)"
  unfolding chud_sum_2_def by code_simp

lemma chud_step_at_17:
  "chud_step 103 17 (PFloat chud_sum_2) = Inr (PFloat chud_sum_2)"
  unfolding chud_sum_2_def by code_simp

lemma chud_denominator_at_18: "chud_denominator 109 18 = Inl OverflowError"
  by code_simp

lemma chud_numerator_at_18: "chud_numerator 109 18 \<noteq> Inl RecursionError"
  by code_simp

lemma chud_step_saturated:
  assumes "2 \<le> k" "k \<le> 17" "nat (6 * k) < d"
  shows "chud_step d k (PFloat chud_sum_2) = Inr (PFloat chud_sum_2)"
proof -
  have "k = 2 \<or> k = 3 \<or> k = 4 \<or> k = 5 \<or> k = 6 \<or> k = 7 \<or> k = 8 \<or> k = 9 \<or> k = 10 \<or> k = 11 \<or> k = 12 \<or> k = 13 \<or> k = 14 \<or> k = 15 \<or> k = 16 \<or> k = 17"
    using assms(1,2) by presburger
  then show ?thesis
  proof (elim disjE)
    assume "k = 2"
    then show ?thesis
      using assms(3) chud_step_depth [of 2 d 13 "PFloat chud_sum_2"] chud_step_at_2
      by simp
  next
    assume "k = 3"
    then show ?thesis
      using assms(3) chud_step_depth [of 3 d 19 "PFloat chud_sum_2"] chud_step_at_3
      by simp
  next
    assume "k = 4"
    then show ?thesis
      using assms(3) chud_step_depth [of 4 d 25 "PFloat chud_sum_2"] chud_step_at_4
      by simp
  next
    assume "k = 5"
    then show ?thesis
      using assms(3) chud_step_depth [of 5 d 31 "PFloat chud_sum_2"] chud_step_at_5
      by simp
  next
    assume "k = 6"
    then show ?thesis
      using assms(3) chud_step_depth [of 6 d 37 "PFloat chud_sum_2"] chud_step_at_6
      by simp
  next
    assume "k = 7"
    then show ?thesis
      using assms(3) chud_step_depth [of 7 d 43 "PFloat chud_sum_2"] chud_step_at_7
      by simp
  next
    assume "k = 8"
    then show ?thesis
      using assms(3) chud_step_depth [of 8 d 49 "PFloat chud_sum_2"] chud_step_at_8
      by simp
  next
    assume "k = 9"
    then show ?thesis
      using assms(3) chud_step_depth [of 9 d 55 "PFloat chud_sum_2"] chud_step_at_9
      by simp
  next
    assume "k = 10"
    then show ?thesis
      using assms(3) chud_step_depth [of 10 d 61 "PFloat chud_sum_2"] chud_step_at_10
      by simp
  next
    assume "k = 11"
    then show ?thesis
      using assms(3) chud_step_depth [of 11 d 67 "PFloat chud_sum_2"] chud_step_at_11
      by simp
  next
    assume "k = 12"
    then show ?thesis
      using assms(3) chud_step_depth [of 12 d 73 "PFloat chud_sum_2"] chud_step_at_12
      by simp
  next
    assume "k = 13"
    then show ?thesis
      using assms(3) chud_step_depth [of 13 d 79 "PFloat chud_sum_2"] chud_step_at_13
      by simp
  next
    assume "k = 14"
    then show ?thesis
      using assms(3) chud_step_depth [of 14 d 85 "PFloat chud_sum_2"] chud_step_at_14
      by simp
  next
    assume "k = 15"
    then show ?thesis
      using assms(3) chud_step_depth [of 15 d 91 "PFloat chud_sum_2"] chud_step_at_15
      by simp
  next
    assume "k = 16"
    then show ?thesis
      using assms(3) chud_step_depth [of 16 d 97 "PFloat chud_sum_2"] chud_step_at_16
      by simp
  next
    assume "k = 17"
    then show ?thesis
      using assms(3) chud_step_depth [of 17 d 103 "PFloat chud_sum_2"] chud_step_at_17
      by simp
  qed
qed

lemma chud_loop_append:
  "chud_loop d (xs @ ys) s = bind_err (chud_loop d xs s) (chud_loop d ys)"
proof (induction xs arbitrary: s)
  case Nil
  show ?case by simp
next
  case (Cons k xs)
  show ?case by (cases "chud_step d k s") (simp_all add: Cons.IH)
qed

lemma range_py_1: "range_py 1 = [0]"
  by (simp add: range_py_def)

lemma range_py_2: "range_py 2 = [0, 1]"
  by (simp add: range_py_def upt_rec)

lemma length_range_py: "length (range_py n) = nat n"
  by (simp add: range_py_def)

lemma chud_loop_1:
  assumes "0 < d"
  shows "chud_loop d (range_py 1) (PInt 0) = Inr (PFloat chud_sum_1)"
  using assms chud_step_depth [of 0 d 2 "PInt 0"]
  by (simp add: range_py_1 chud_step_at_0)

lemma chud_loop_2:
  assumes "6 < d"
  shows "chud_loop d (range_py 2) (PInt 0) = Inr (PFloat chud_sum_2)"
  using assms chud_step_depth [of 0 d 2 "PInt 0"] chud_step_depth [of 1 d 7 "PFloat chud_sum_1"]
  by (simp add: range_py_2 chud_step_at_0 chud_step_at_1)

lemma chud_loop_saturated:
  assumes "\<forall>k \<in> set ks. 2 \<le> k \<and> k \<le> 17 \<and> nat (6 * k) < d"
  shows "chud_loop d ks (PFloat chud_sum_2) = Inr (PFloat chud_sum_2)"
  using assms by (induction ks) (simp_all add: chud_step_saturated)

lemma chud_loop_upto_18:
  assumes "2 \<le> n" "n \<le> 18" "6 * (n - 1) < int d"
  shows "chud_loop d (range_py n) (PInt 0) = Inr (PFloat chud_sum_2)"
proof -
  have "6 < d" using assms(1,3) by auto
  then have first: "chud_loop d (range_py 2) (PInt 0) = Inr (PFloat chud_sum_2)"
    by (rule chud_loop_2)
  have rest: "chud_loop d (map int [nat 2..<nat n]) (PFloat chud_sum_2) = Inr (PFloat chud_sum_2)"
  proof (rule chud_loop_saturated, rule ballI)
    fix k assume "k \<in> set (map int [nat 2..<nat n])"
    then have "2 \<le> k \<and> k < n" by auto
    with assms show "2 \<le> k \<and> k \<le> 17 \<and> nat (6 * k) < d" by auto
  qed
  have "range_py n = range_py 2 @ map int [nat 2..<nat n]"
    using assms(1) by (intro range_py_split) simp_all
  then show ?thesis
    by (simp only: chud_loop_append first rest bind_err_Inr)
qed

lemma chud_step_18:
  assumes "108 < d"
  shows "chud_step d 18 s = Inl OverflowError"
proof -
  have "chud_denominator d 18 = chud_denominator 109 18"
    using assms by (simp add: chud_denominator_def factorial_returns)
  moreover have "chud_numerator d 18 = Inr ((- 1) ^ nat 18 * fact (nat (6 * 18)) * (545140134 * 18 + 13591409))"
    using assms by (simp only: chud_numerator_def) (simp add: factorial_returns)
  ultimately show ?thesis
    by (simp only: chud_step_def chud_denominator_at_18 bind_err_Inr bind_err_Inl)
qed

lemma chud_loop_overflow:
  assumes "19 \<le> n" "108 < d"
  shows "chud_loop d (range_py n) (PInt 0) = Inl OverflowError"
proof -
  have first: "chud_loop d (range_py 18) (PInt 0) = Inr (PFloat chud_sum_2)"
    using assms(2) by (intro chud_loop_upto_18) simp_all
  have "[nat 18..<nat n] = nat 18 # [Suc (nat 18)..<nat n]"
    using assms(1) by (intro upt_conv_Cons) linarith
  then have "map int [nat 18..<nat n] = 18 # map int [Suc (nat 18)..<nat n]"
    by simp
  moreover have "range_py n = range_py 18 @ map int [nat 18..<nat n]"
    using assms(1) by (intro range_py_split) simp_all
  ultimately have "range_py n = range_py 18 @ (18 # map int [Suc (nat 18)..<nat n])"
    by simp
  then show ?thesis
    using assms(2) by (simp only: chud_loop_append first bind_err_Inr chud_loop.simps chud_step_18 bind_err_Inl)
qed

lemma chud_finish_sum_1: "chud_finish (PFloat chud_sum_1) = Inr (Fin 7074237752028308 (- 51))"
  unfolding chud_sum_1_def by code_simp

lemma chud_finish_sum_2: "chud_finish (PFloat chud_sum_2) = Inr (Fin 7074237752028441 (- 51))"
  unfolding chud_sum_2_def by code_simp

lemma estimate_pi_chudnovsky_1:
  assumes "0 < d"
  shows "estimate_pi_chudnovsky d 1 = Inr (Fin 7074237752028308 (- 51))"
  using assms by (simp add: estimate_pi_chudnovsky_def chud_loop_1 chud_finish_sum_1)

lemma estimate_pi_chudnovsky_upto_18:
  assumes "2 \<le> n" "n \<le> 18" "6 * (n - 1) < int d"
  shows "estimate_pi_chudnovsky d n = Inr (Fin 7074237752028441 (- 51))"
  using assms by (simp add: estimate_pi_chudnovsky_def chud_loop_upto_18 chud_finish_sum_2)

lemma estimate_pi_chudnovsky_overflow:
  assumes "19 \<le> n" "108 < d"
  shows "estimate_pi_chudnovsky d n = Inl OverflowError"
  using assms by (simp add: estimate_pi_chudnovsky_def chud_loop_overflow)

lemma rama_2_at_5: "estimate_pi_ramanujan 5 2 = Inr (Fin 7074237752028441 (- 51))"
  by code_simp

lemma estimate_pi_ramanujan_1:
  assumes "0 < d"
  shows "estimate_pi_ramanujan d 1 = Inr (Fin 7074237924118891 (- 51))"
  using assms estimate_pi_ramanujan_depth [of 1 d 13] by (simp add: rama_1_at_13)

lemma estimate_pi_ramanujan_2:
  assumes "4 < d"
  shows "estimate_pi_ramanujan d 2 = Inr (Fin 7074237752028441 (- 51))"
  using assms estimate_pi_ramanujan_depth [of 2 d 5] by (simp add: rama_2_at_5)

subsection \<open>The error does not grow with the term count\<close>

lemma ulp_errors:
  "\<bar>valof (Fin 7074237752028441 (- 51)) - valof math_pi\<bar>
     \<le> \<bar>valof (Fin 7074237752028308 (- 51)) - valof math_pi\<bar>"
  "\<bar>valof (Fin 7074237752028441 (- 51)) - pi\<bar>
     \<le> \<bar>valof (Fin 7074237752028308 (- 51)) - pi\<bar>"
  "\<bar>valof (Fin 7074237752028441 (- 51)) - valof math_pi\<bar>
     \<le> \<bar>valof (Fin 7074237924118891 (- 51)) - valof math_pi\<bar>"
  "\<bar>valof (Fin 7074237752028441 (- 51)) - pi\<bar>
     \<le> \<bar>valof (Fin 7074237924118891 (- 51)) - pi\<bar>"
  "\<bar>valof math_pi - valof math_pi\<bar>
     \<le> \<bar>valof (Fin 7074237752028441 (- 51)) - valof math_pi\<bar>"
  "\<bar>valof math_pi - pi\<bar> \<le> \<bar>valof (Fin 7074237752028441 (- 51)) - pi\<bar>"
  using pi_bounds by (simp_all add: valof_def math_pi_def)

lemma rama_error_step:
  assumes "1 \<le> n" "4 * n < int d"
  shows "\<exists>m e m' e'.
     estimate_pi_ramanujan d n = Inr (Fin m e) \<and>
     estimate_pi_ramanujan d (n + 1) = Inr (Fin m' e') \<and>
     \<bar>valof (Fin m' e') - valof math_pi\<bar> \<le> \<bar>valof (Fin m e) - valof math_pi\<bar> \<and>
     \<bar>valof (Fin m' e') - pi\<bar> \<le> \<bar>valof (Fin m e) - pi\<bar>"
proof -
  consider "n = 1" | "n = 2" | "3 \<le> n" using assms(1) by linarith
  then show ?thesis
  proof cases
    case 1
    have "estimate_pi_ramanujan d 1 = Inr (Fin 7074237924118891 (- 51))"
      using assms(2) 1 by (intro estimate_pi_ramanujan_1) simp
    moreover have "estimate_pi_ramanujan d (1 + 1) = Inr (Fin 7074237752028441 (- 51))"
      using assms(2) 1 estimate_pi_ramanujan_2 [of d] by simp
    ultimately show ?thesis
      unfolding 1 using ulp_errors(3,4) by blast
  next
    case 2
    have "estimate_pi_ramanujan d 2 = Inr (Fin 7074237752028441 (- 51))"
      using assms(2) 2 by (intro estimate_pi_ramanujan_2) simp
    moreover have "estimate_pi_ramanujan d (2 + 1) = Inr (Fin 7074237752028440 (- 51))"
      using assms(2) 2 estimate_pi_ramanujan_from_3 [of 3 d] by (simp add: math_pi_def)
    ultimately show ?thesis
      unfolding 2 using ulp_errors(5,6) unfolding math_pi_def by blast
  next
    case 3
    have "estimate_pi_ramanujan d n = Inr (Fin 7074237752028440 (- 51))"
      using assms(2) 3 estimate_pi_ramanujan_from_3 [of n d] by (simp add: math_pi_def)
    moreover have "estimate_pi_ramanujan d (n + 1) = Inr (Fin 7074237752028440 (- 51))"
      using assms(2) 3 estimate_pi_ramanujan_from_3 [of "n + 1" d] by (simp add: math_pi_def)
    ultimately show ?thesis by auto
  qed
qed

lemma chud_error_step:
  assumes "1 \<le> n" "n \<le> 17" "6 * n < int d"
  shows "\<exists>m e m' e'.
     estimate_pi_chudnovsky d n = Inr (Fin m e) \<and>
     estimate_pi_chudnovsky d (n + 1) = Inr (Fin m' e') \<and>
     \<bar>valof (Fin m' e') - valof math_pi\<bar> \<le> \<bar>valof (Fin m e) - valof math_pi\<bar> \<and>
     \<bar>valof (Fin m' e') - pi\<bar> \<le> \<bar>valof (Fin m e) - pi\<bar>"
proof -
  have next_one: "estimate_pi_chudnovsky d (n + 1) = Inr (Fin 7074237752028441 (- 51))"
    using assms by (intro estimate_pi_chudnovsky_upto_18) simp_all
  consider "n = 1" | "2 \<le> n" using assms(1) by linarith
  then show ?thesis
  proof cases
    case 1
    have "estimate_pi_chudnovsky d 1 = Inr (Fin 7074237752028308 (- 51))"
      using assms(3) 1 by (intro estimate_pi_chudnovsky_1) simp
    then show ?thesis
      using next_one ulp_errors(1,2) unfolding 1 by blast
  next
    case 2
    have "estimate_pi_chudnovsky d n = Inr (Fin 7074237752028441 (- 51))"
      using assms 2 by (intro estimate_pi_chudnovsky_upto_18) simp_all
    then show ?thesis using next_one by auto
  qed
qed

text \<open>
  C8, as the code has it. Let \<open>n \<ge> 1\<close>, and let the interpreter allow the nested
  calls that \<open>n + 1\<close> terms need. The Ramanujan--Sato estimates for \<open>n\<close> and
  \<open>n + 1\<close> terms are finite floats, and the second is at least as close to
  \<^verbatim>\<open>math.pi\<close>, and to pi, as the first. The same holds for the Chudnovsky estimates
  as long as \<open>n \<le> 17\<close>. From \<open>n = 18\<close> on there is no Chudnovsky estimate for
  \<open>n + 1\<close> terms: the call raises \<^verbatim>\<open>OverflowError\<close>.
\<close>

theorem error_non_increasing:
  assumes "1 \<le> n" "6 * n < int d"
  shows "(\<exists>m e m' e'.
     estimate_pi_ramanujan d n = Inr (Fin m e) \<and>
     estimate_pi_ramanujan d (n + 1) = Inr (Fin m' e') \<and>
     \<bar>valof (Fin m' e') - valof math_pi\<bar> \<le> \<bar>valof (Fin m e) - valof math_pi\<bar> \<and>
     \<bar>valof (Fin m' e') - pi\<bar> \<le> \<bar>valof (Fin m e) - pi\<bar>) \<and>
   (n \<le> 17 \<longrightarrow> (\<exists>m e m' e'.
     estimate_pi_chudnovsky d n = Inr (Fin m e) \<and>
     estimate_pi_chudnovsky d (n + 1) = Inr (Fin m' e') \<and>
     \<bar>valof (Fin m' e') - valof math_pi\<bar> \<le> \<bar>valof (Fin m e) - valof math_pi\<bar> \<and>
     \<bar>valof (Fin m' e') - pi\<bar> \<le> \<bar>valof (Fin m e) - pi\<bar>)) \<and>
   (18 \<le> n \<longrightarrow> estimate_pi_chudnovsky d (n + 1) = Inl OverflowError)"
proof (intro conjI impI)
  show "\<exists>m e m' e'.
     estimate_pi_ramanujan d n = Inr (Fin m e) \<and>
     estimate_pi_ramanujan d (n + 1) = Inr (Fin m' e') \<and>
     \<bar>valof (Fin m' e') - valof math_pi\<bar> \<le> \<bar>valof (Fin m e) - valof math_pi\<bar> \<and>
     \<bar>valof (Fin m' e') - pi\<bar> \<le> \<bar>valof (Fin m e) - pi\<bar>"
    using assms by (intro rama_error_step) simp_all
next
  assume "n \<le> 17"
  with assms show "\<exists>m e m' e'.
     estimate_pi_chudnovsky d n = Inr (Fin m e) \<and>
     estimate_pi_chudnovsky d (n + 1) = Inr (Fin m' e') \<and>
     \<bar>valof (Fin m' e') - valof math_pi\<bar> \<le> \<bar>valof (Fin m e) - valof math_pi\<bar> \<and>
     \<bar>valof (Fin m' e') - pi\<bar> \<le> \<bar>valof (Fin m e) - pi\<bar>"
    by (intro chud_error_step) simp_all
next
  assume "18 \<le> n"
  with assms show "estimate_pi_chudnovsky d (n + 1) = Inl OverflowError"
    by (intro estimate_pi_chudnovsky_overflow) simp_all
qed

theorem error_non_increasing_witness:
  "(\<exists>m e m' e'.
     estimate_pi_ramanujan 1000 1 = Inr (Fin m e) \<and>
     estimate_pi_ramanujan 1000 2 = Inr (Fin m' e') \<and>
     \<bar>valof (Fin m' e') - valof math_pi\<bar> \<le> \<bar>valof (Fin m e) - valof math_pi\<bar> \<and>
     \<bar>valof (Fin m' e') - pi\<bar> \<le> \<bar>valof (Fin m e) - pi\<bar>) \<and>
   (\<exists>m e m' e'.
     estimate_pi_chudnovsky 1000 1 = Inr (Fin m e) \<and>
     estimate_pi_chudnovsky 1000 2 = Inr (Fin m' e') \<and>
     \<bar>valof (Fin m' e') - valof math_pi\<bar> \<le> \<bar>valof (Fin m e) - valof math_pi\<bar> \<and>
     \<bar>valof (Fin m' e') - pi\<bar> \<le> \<bar>valof (Fin m e) - pi\<bar>) \<and>
   estimate_pi_chudnovsky 1000 19 = Inl OverflowError"
  using error_non_increasing [of 1 1000] error_non_increasing [of 18 1000] by simp

text \<open>
  C8, as the specification states it, fails for the Chudnovsky estimator at \<open>n = 18\<close>:
  the estimate for 18 terms exists, the call for 19 terms raises \<^verbatim>\<open>OverflowError\<close>,
  so there is no error of the estimate for \<open>n + 1\<close> terms to compare.
\<close>

theorem no_nineteenth_estimate:
  "estimate_pi_chudnovsky 1000 18 = Inr (Fin 7074237752028441 (- 51)) \<and>
   estimate_pi_chudnovsky 1000 (18 + 1) = Inl OverflowError"
  by (simp add: estimate_pi_chudnovsky_upto_18 estimate_pi_chudnovsky_overflow)

subsection \<open>Termination and the number of iterations\<close>

lemma rama_loop_1_at_5:
  "rama_loop 5 (range_py 1) (PInt 0) = Inr (PFloat (Fin 4851045301747712 (- 42)))"
  by code_simp

lemma rama_loop_2_at_5:
  "rama_loop 5 (range_py 2) (PInt 0) = Inr (PFloat (Fin 4851045419755983 (- 42)))"
  by code_simp

lemma rama_loop_returns:
  assumes "0 \<le> n" "4 * (n - 1) < int d"
  shows "\<exists>s. rama_loop d (range_py n) (PInt 0) = Inr s"
proof -
  consider "n = 0" | "n = 1" | "n = 2" | "3 \<le> n" using assms(1) by linarith
  then show ?thesis
  proof cases
    case 1
    then show ?thesis by (simp add: range_py_nonpos)
  next
    case 2
    have "rama_loop d (range_py 1) (PInt 0) = rama_loop 5 (range_py 1) (PInt 0)"
      using assms(2) 2 by (intro rama_loop_depth) (auto simp add: range_py_1)
    then show ?thesis unfolding 2 by (simp add: rama_loop_1_at_5)
  next
    case 3
    have "rama_loop d (range_py 2) (PInt 0) = rama_loop 5 (range_py 2) (PInt 0)"
      using assms(2) 3 by (intro rama_loop_depth) (auto simp add: range_py_2)
    then show ?thesis unfolding 3 by (simp add: rama_loop_2_at_5)
  next
    case 4
    then show ?thesis using assms(2) by (simp add: rama_loop_from_3)
  qed
qed

lemma chud_loop_returns:
  assumes "0 \<le> n" "n \<le> 18" "6 * (n - 1) < int d"
  shows "\<exists>s. chud_loop d (range_py n) (PInt 0) = Inr s"
proof -
  consider "n = 0" | "n = 1" | "2 \<le> n" using assms(1) by linarith
  then show ?thesis
  proof cases
    case 1
    then show ?thesis by (simp add: range_py_nonpos)
  next
    case 2
    then show ?thesis using assms(3) by (simp add: chud_loop_1)
  next
    case 3
    then show ?thesis using assms(2,3) by (simp add: chud_loop_upto_18)
  qed
qed

lemma factorial_calls_return:
  assumes "6 * (n - 1) < int d" "k \<in> set (range_py n)"
  shows "0 \<le> k \<and>
         factorial d (6 * k) = Inr (fact (nat (6 * k))) \<and>
         factorial d (4 * k) = Inr (fact (nat (4 * k))) \<and>
         factorial d (3 * k) = Inr (fact (nat (3 * k))) \<and>
         factorial d k = Inr (fact (nat k))"
proof -
  have k: "0 \<le> k" "k < n" using range_py_bounds [OF assms(2)] by simp_all
  then have "nat (6 * k) < d" "nat (4 * k) < d" "nat (3 * k) < d" "nat k < d"
    using assms(1) by auto
  then show ?thesis using k(1) by (simp add: factorial_returns)
qed

text \<open>
  C9, as the code has it. Let the term count \<open>n\<close> be non-negative and let the
  interpreter allow more than \<open>6 (n - 1)\<close> nested calls. Then \<^verbatim>\<open>range(n)\<close> holds
  \<open>n\<close> indices; every call of \<^verbatim>\<open>factorial\<close> either loop makes has a non-negative
  argument and returns the factorial; the Ramanujan--Sato loop completes all \<open>n\<close>
  iterations; the Chudnovsky loop completes all \<open>n\<close> iterations when \<open>n \<le> 18\<close>, and
  for a larger \<open>n\<close> it completes 18 iterations and the 19th raises
  \<^verbatim>\<open>OverflowError\<close>, which ends the call. (A loop function that returns \<open>Inr\<close> has
  run the body once for every index of its list; every function of the model is
  total, so each call ends with a value or an exception.)
\<close>

theorem loops_run_to_completion:
  assumes "0 \<le> n" "6 * (n - 1) < int d"
  shows "length (range_py n) = nat n \<and>
     (\<forall>k \<in> set (range_py n). 0 \<le> k \<and>
        factorial d (6 * k) = Inr (fact (nat (6 * k))) \<and>
        factorial d (4 * k) = Inr (fact (nat (4 * k))) \<and>
        factorial d (3 * k) = Inr (fact (nat (3 * k))) \<and>
        factorial d k = Inr (fact (nat k))) \<and>
     (\<exists>s. rama_loop d (range_py n) (PInt 0) = Inr s) \<and>
     (n \<le> 18 \<longrightarrow> (\<exists>s. chud_loop d (range_py n) (PInt 0) = Inr s)) \<and>
     (18 < n \<longrightarrow>
        chud_loop d (range_py 18) (PInt 0) = Inr (PFloat chud_sum_2) \<and>
        chud_step d 18 (PFloat chud_sum_2) = Inl OverflowError \<and>
        chud_loop d (range_py n) (PInt 0) = Inl OverflowError \<and>
        estimate_pi_chudnovsky d n = Inl OverflowError)"
proof (intro conjI ballI impI)
  show "length (range_py n) = nat n" by (rule length_range_py)
next
  fix k assume "k \<in> set (range_py n)"
  with assms(2) have *: "0 \<le> k \<and>
         factorial d (6 * k) = Inr (fact (nat (6 * k))) \<and>
         factorial d (4 * k) = Inr (fact (nat (4 * k))) \<and>
         factorial d (3 * k) = Inr (fact (nat (3 * k))) \<and>
         factorial d k = Inr (fact (nat k))"
    by (rule factorial_calls_return)
  from * show "0 \<le> k" by simp
  from * show "factorial d (6 * k) = Inr (fact (nat (6 * k)))" by simp
  from * show "factorial d (4 * k) = Inr (fact (nat (4 * k)))" by simp
  from * show "factorial d (3 * k) = Inr (fact (nat (3 * k)))" by simp
  from * show "factorial d k = Inr (fact (nat k))" by simp
next
  show "\<exists>s. rama_loop d (range_py n) (PInt 0) = Inr s"
    using assms by (intro rama_loop_returns) simp_all
next
  assume "n \<le> 18"
  with assms show "\<exists>s. chud_loop d (range_py n) (PInt 0) = Inr s"
    by (intro chud_loop_returns) simp_all
next
  assume n: "18 < n"
  then have d: "108 < d" using assms(2) by auto
  then show "chud_loop d (range_py 18) (PInt 0) = Inr (PFloat chud_sum_2)"
    by (intro chud_loop_upto_18) simp_all
  show "chud_step d 18 (PFloat chud_sum_2) = Inl OverflowError"
    using d by (rule chud_step_18)
  show "chud_loop d (range_py n) (PInt 0) = Inl OverflowError"
    using n d by (intro chud_loop_overflow) simp_all
  show "estimate_pi_chudnovsky d n = Inl OverflowError"
    using n d by (intro estimate_pi_chudnovsky_overflow) simp_all
qed

theorem loops_run_to_completion_witness:
  "length (range_py 4) = nat 4 \<and>
   factorial 1000 (6 * 3) = Inr (fact (nat (6 * 3))) \<and>
   (\<exists>s. rama_loop 1000 (range_py 4) (PInt 0) = Inr s) \<and>
   (\<exists>s. chud_loop 1000 (range_py 4) (PInt 0) = Inr s) \<and>
   chud_loop 1000 (range_py 19) (PInt 0) = Inl OverflowError"
proof -
  have four: "length (range_py 4) = nat 4 \<and>
     (\<forall>k \<in> set (range_py 4). 0 \<le> k \<and>
        factorial 1000 (6 * k) = Inr (fact (nat (6 * k))) \<and>
        factorial 1000 (4 * k) = Inr (fact (nat (4 * k))) \<and>
        factorial 1000 (3 * k) = Inr (fact (nat (3 * k))) \<and>
        factorial 1000 k = Inr (fact (nat k))) \<and>
     (\<exists>s. rama_loop 1000 (range_py 4) (PInt 0) = Inr s) \<and>
     (\<exists>s. chud_loop 1000 (range_py 4) (PInt 0) = Inr s)"
    using loops_run_to_completion [of 4 1000] by simp
  have "3 \<in> set (range_py 4)" by (simp add: range_py_def)
  with four have "factorial 1000 (6 * 3) = Inr (fact (nat (6 * 3)))" by blast
  moreover have "chud_loop 1000 (range_py 19) (PInt 0) = Inl OverflowError"
    using loops_run_to_completion [of 19 1000] by simp
  ultimately show ?thesis using four by blast
qed

text \<open>
  C9, as the specification states it, fails for the Chudnovsky estimator with 20
  terms: the loop over the 20 indices does not run to its end, it is left with
  \<^verbatim>\<open>OverflowError\<close>.
\<close>

theorem twenty_terms_loop_aborted:
  "length (range_py 20) = 20 \<and> chud_loop 1000 (range_py 20) (PInt 0) = Inl OverflowError"
  by (simp add: length_range_py chud_loop_overflow)

subsection \<open>The exact sums: tails and enclosures\<close>

lemma halving_tail:
  fixes t :: "nat \<Rightarrow> real"
  assumes "\<And>k. 0 \<le> t k" "\<And>k. t (Suc k) \<le> t k / 2" "j \<le> n"
  shows "(\<Sum>k = j..<n. t k) + 2 * t n \<le> 2 * t j"
  using assms(3)
proof (induction n)
  case 0
  then show ?case by simp
next
  case (Suc n)
  show ?case
  proof (cases "j = Suc n")
    case True
    then show ?thesis by simp
  next
    case False
    with Suc.prems have jn: "j \<le> n" by simp
    then have "(\<Sum>k = j..<Suc n. t k) + 2 * t (Suc n) = (\<Sum>k = j..<n. t k) + t n + 2 * t (Suc n)"
      by simp
    also have "\<dots> \<le> (\<Sum>k = j..<n. t k) + 2 * t n"
      using assms(2) [of n] by linarith
    also have "\<dots> \<le> 2 * t j" using jn by (rule Suc.IH)
    finally show ?thesis .
  qed
qed

lemma sum_split_at:
  fixes t :: "nat \<Rightarrow> real"
  assumes "j \<le> n"
  shows "(\<Sum>k<n. t k) = (\<Sum>k<j. t k) + (\<Sum>k = j..<n. t k)"
proof -
  have "{..<n} = {..<j} \<union> {j..<n}" using assms by auto
  moreover have "{..<j} \<inter> {j..<n} = {}" by auto
  ultimately show ?thesis by (simp add: sum.union_disjoint)
qed

lemma rama_series_bounds:
  assumes "j \<le> n"
  shows "rama_series j \<le> rama_series n" "rama_series n \<le> rama_series j + 2 * rama_term j"
proof -
  have split: "rama_series n = rama_series j + (\<Sum>k = j..<n. rama_term k)"
    unfolding rama_series_def using assms by (rule sum_split_at)
  have "0 \<le> (\<Sum>k = j..<n. rama_term k)"
    by (intro sum_nonneg rama_term_nonneg)
  then show "rama_series j \<le> rama_series n" using split by linarith
  have "(\<Sum>k = j..<n. rama_term k) + 2 * rama_term n \<le> 2 * rama_term j"
    using rama_term_nonneg rama_term_halves assms by (rule halving_tail)
  then show "rama_series n \<le> rama_series j + 2 * rama_term j"
    using split rama_term_nonneg [of n] by linarith
qed

lemma sqrt_2_bounds:
  "1414213562373095048 / 10 ^ 18 < sqrt 2" "sqrt 2 < 1414213562373095049 / 10 ^ 18"
proof -
  show "1414213562373095048 / 10 ^ 18 < sqrt 2"
    by (rule real_less_rsqrt) (simp add: power2_eq_square)
  show "sqrt 2 < 1414213562373095049 / 10 ^ 18"
    by (rule real_less_lsqrt) (simp_all add: power2_eq_square)
qed

lemma rama_enclosure:
  fixes S Sl Su v :: real
  assumes "0 < Sl" "Sl \<le> S" "S \<le> Su"
    and "(v - tol) * (2 * (1414213562373095049 / 10 ^ 18) / 9801 * Su) < 1"
    and "1 < (v + tol) * (2 * (1414213562373095048 / 10 ^ 18) / 9801 * Sl)"
    and "0 < v - tol" "0 \<le> tol"
  shows "\<bar>v - 1 / ((2 * sqrt 2 / 9801) * S)\<bar> < tol"
proof -
  define rl :: real where "rl = 1414213562373095048 / 10 ^ 18"
  define ru :: real where "ru = 1414213562373095049 / 10 ^ 18"
  define r where "r = sqrt 2"
  have r: "rl < r" "r < ru" "0 < rl"
    using sqrt_2_bounds by (simp_all add: rl_def ru_def r_def)
  define x where "x = (2 * r / 9801) * S"
  define xl where "xl = (2 * rl / 9801) * Sl"
  define xu where "xu = (2 * ru / 9801) * Su"
  have Spos: "0 < S" using assms(1,2) by linarith
  have xl: "0 < xl" using assms(1) r(3) by (simp add: xl_def)
  have "xl \<le> x"
    unfolding xl_def x_def using assms(1,2) r by (intro mult_mono) simp_all
  have "x \<le> xu"
    unfolding xu_def x_def using assms(3) Spos r by (intro mult_mono) simp_all
  have xpos: "0 < x" using xl \<open>xl \<le> x\<close> by linarith
  have "(v - tol) * x \<le> (v - tol) * xu"
    using \<open>x \<le> xu\<close> assms(6) by (intro mult_left_mono) simp_all
  also have "\<dots> < 1" using assms(4) by (simp add: xu_def ru_def)
  finally have low: "v - tol < 1 / x"
    using xpos by (simp add: pos_less_divide_eq)
  have "1 < (v + tol) * xl" using assms(5) by (simp add: xl_def rl_def)
  also have "\<dots> \<le> (v + tol) * x"
    using \<open>xl \<le> x\<close> assms(6,7) by (intro mult_left_mono) simp_all
  finally have up: "1 / x < v + tol"
    using xpos by (simp add: pos_divide_less_eq)
  show ?thesis using low up by (simp add: x_def r_def abs_less_iff)
qed

lemma rama_series_1: "rama_series (Suc 0) = 1103"
  by (simp add: rama_series_def rama_term_def)

lemma rama_series_2: "rama_series 2 = 1103 + 24 * 27493 / 396 ^ 4"
  by (simp add: rama_series_def rama_term_def lessThan_nat_numeral lessThan_Suc fact_numeral)

lemma rama_series_3:
  "rama_series 3 = 1103 + 24 * 27493 / 396 ^ 4 + 40320 * 53883 / (16 * 396 ^ 8)"
  by (simp add: rama_series_def rama_term_def lessThan_nat_numeral lessThan_Suc fact_numeral)

lemma rama_term_3_value: "rama_term 3 = 479001600 * 80273 / (1296 * 396 ^ 12)"
  by (simp add: rama_term_def fact_numeral)

lemma rama_formula_1:
  "\<bar>valof (Fin 7074237924118891 (- 51)) - rama_formula 1\<bar> < 2 powi (- 51)"
  unfolding rama_formula_def
  by (rule rama_enclosure [where Sl = "rama_series 1" and Su = "rama_series 1"])
     (simp_all add: rama_series_1 valof_def)

lemma rama_formula_2:
  "\<bar>valof (Fin 7074237752028441 (- 51)) - rama_formula 2\<bar> < 2 powi (- 51)"
  unfolding rama_formula_def
  by (rule rama_enclosure [where Sl = "rama_series 2" and Su = "rama_series 2"])
     (simp_all add: rama_series_2 valof_def)

lemma rama_formula_from_3:
  assumes "3 \<le> n"
  shows "\<bar>valof math_pi - rama_formula n\<bar> < 2 powi (- 51)"
  unfolding rama_formula_def
proof (rule rama_enclosure [where Sl = "rama_series 3" and Su = "rama_series 3 + 2 * rama_term 3"])
  show "rama_series 3 \<le> rama_series n" using assms by (rule rama_series_bounds(1))
  show "rama_series n \<le> rama_series 3 + 2 * rama_term 3"
    using assms by (rule rama_series_bounds(2))
qed (simp_all add: rama_series_3 rama_term_3_value valof_def math_pi_def)

subsection \<open>The Chudnovsky terms\<close>

lemma powr_three_halves:
  "(640320 :: real) powr (3 * real k + 3 / 2) = 640320 ^ (3 * k + 1) * sqrt 640320"
proof -
  have "3 * real k + 3 / 2 = real (3 * k + 1) + 1 / 2" by simp
  then have "(640320 :: real) powr (3 * real k + 3 / 2)
      = 640320 powr real (3 * k + 1) * 640320 powr (1 / 2)"
    by (simp only: powr_add)
  also have "(640320 :: real) powr real (3 * k + 1) = 640320 ^ (3 * k + 1)"
    by (rule powr_realpow) simp
  also have "(640320 :: real) powr (1 / 2) = sqrt 640320"
    by (rule powr_half_sqrt) simp
  finally show ?thesis .
qed

lemma chud_term_magnitude:
  "chud_term k = (- 1) ^ k * chud_magnitude k / sqrt 640320"
  by (simp add: chud_term_def chud_magnitude_def powr_three_halves)

lemma chud_magnitude_nonneg: "0 \<le> chud_magnitude k"
  by (simp add: chud_magnitude_def)

lemma six_factors:
  "(6 * k + 6) * (6 * k + 5) * (6 * k + 4) * (6 * k + 3) * (6 * k + 2) * (6 * k + 1)
     \<le> 46656 * (k + 1) ^ 6" for k :: nat
proof -
  have x: "6 * k + 6 = 6 * (k + 1)" by simp
  have "(6 * k + 6) * (6 * k + 5) * (6 * k + 4) * (6 * k + 3) * (6 * k + 2) * (6 * k + 1)
      \<le> (6 * k + 6) * (6 * k + 6) * (6 * k + 6) * (6 * k + 6) * (6 * k + 6) * (6 * k + 6)"
    by (intro mult_le_mono) simp_all
  also have "\<dots> = (6 * k + 6) ^ 3 * (6 * k + 6) ^ 3"
    by (simp only: power3_eq_cube mult.assoc)
  also have "\<dots> = (6 * k + 6) ^ 6"
    by (simp only: power_add [symmetric]) simp
  also have "\<dots> = 46656 * (k + 1) ^ 6"
    by (simp only: x power_mult_distrib) simp
  finally show ?thesis .
qed

lemma three_factors:
  "(k + 1) ^ 3 \<le> (3 * k + 3) * (3 * k + 2) * (3 * k + 1)" for k :: nat
proof -
  have "(k + 1) ^ 3 = (k + 1) * (k + 1) * (k + 1)"
    by (simp add: power3_eq_cube)
  also have "\<dots> \<le> (3 * k + 3) * (3 * k + 2) * (3 * k + 1)"
    by (intro mult_le_mono) simp_all
  finally show ?thesis .
qed

lemma fact_plus_three:
  "fact (n + 3) = (n + 3) * (n + 2) * (n + 1) * (fact n :: nat)"
proof -
  have e: "n + 3 = Suc (n + 2)" "n + 2 = Suc (n + 1)" "n + 1 = Suc n"
    by simp_all
  have "fact (n + 3) = (n + 3) * (fact (n + 2) :: nat)"
    by (metis e(1) fact_Suc of_nat_id)
  also have "fact (n + 2) = (n + 2) * (fact (n + 1) :: nat)"
    by (metis e(2) fact_Suc of_nat_id)
  also have "fact (n + 1) = (n + 1) * (fact n :: nat)"
    by (metis e(3) fact_Suc of_nat_id)
  finally show ?thesis by (simp only: mult.assoc)
qed

lemma fact_plus_six:
  "fact (n + 6) = (n + 6) * (n + 5) * (n + 4) * (n + 3) * (n + 2) * (n + 1) * (fact n :: nat)"
proof -
  have "n + 6 = (n + 3) + 3" by simp
  then have "(fact (n + 6) :: nat) = (n + 3 + 3) * (n + 3 + 2) * (n + 3 + 1) * fact (n + 3)"
    by (simp only: fact_plus_three)
  also have "\<dots> = (n + 6) * (n + 5) * (n + 4) * fact (n + 3)"
  proof -
    have "n + 3 + 3 = n + 6" "n + 3 + 2 = n + 5" "n + 3 + 1 = n + 4" by simp_all
    then show ?thesis by (simp only:)
  qed
  finally show ?thesis by (simp only: fact_plus_three mult.assoc)
qed

lemma chud_magnitude_halves: "chud_magnitude (Suc k) \<le> chud_magnitude k / 2"
proof -
  define L where "L = 545140134 * k + 13591409"
  define P where "P = (6 * k + 6) * (6 * k + 5) * (6 * k + 4) * (6 * k + 3) * (6 * k + 2) * (6 * k + 1)"
  define R where "R = (3 * k + 3) * (3 * k + 2) * (3 * k + 1)"
  define X where "X = (k + 1) ^ 3"
  define A :: real where "A = fact (6 * k)"
  define G :: real where "G = fact (3 * k) * fact k ^ 3 * 640320 ^ (3 * k + 1)"
  have pos: "0 < A" "0 < G" "0 < X" by (simp_all add: A_def G_def X_def)
  have a: "P \<le> 46656 * (X * X)"
    unfolding P_def X_def using six_factors [of k] by (simp add: power_add [symmetric])
  have b: "L + 545140134 \<le> 42 * L" by (simp add: L_def)
  have c: "X \<le> R" unfolding X_def R_def by (rule three_factors)
  have Rpos: "0 < R" using c pos(3) by linarith
  have "2 * (P * (L + 545140134)) \<le> 2 * ((46656 * (X * X)) * (42 * L))"
    using mult_le_mono [OF a b] by (simp only: mult_le_cancel1) simp
  also have "\<dots> = 3919104 * (X * (X * L))" by simp
  also have "\<dots> \<le> 640320 ^ 3 * (X * (X * L))" by (intro mult_le_mono1) simp
  also have "\<dots> \<le> 640320 ^ 3 * (R * (X * L))"
    using c by (intro mult_le_mono2 mult_le_mono1)
  finally have "real (2 * (P * (L + 545140134))) \<le> real (640320 ^ 3 * (R * (X * L)))"
    by (simp only: of_nat_le_iff)
  then have key: "2 * (real P * real (L + 545140134)) \<le> 640320 ^ 3 * (real R * (real X * real L))"
    by simp
  have t0: "chud_magnitude k = real L * (A / G)"
    by (simp add: chud_magnitude_def L_def A_def G_def)
  have f6: "(fact (6 * Suc k) :: real) = real P * A"
  proof -
    have "6 * Suc k = 6 * k + 6" by simp
    then have "(fact (6 * Suc k) :: nat) = P * fact (6 * k)"
      by (simp only: fact_plus_six P_def)
    then have "real (fact (6 * Suc k)) = real (P * fact (6 * k))" by (rule arg_cong)
    then show ?thesis by (simp add: A_def)
  qed
  have f3: "(fact (3 * Suc k) :: real) = real R * fact (3 * k)"
  proof -
    have "3 * Suc k = 3 * k + 3" by simp
    then have "(fact (3 * Suc k) :: nat) = R * fact (3 * k)"
      by (simp only: fact_plus_three R_def)
    then have "real (fact (3 * Suc k)) = real (R * fact (3 * k))" by (rule arg_cong)
    then show ?thesis by simp
  qed
  have g: "(fact (3 * Suc k) * fact (Suc k) ^ 3 * 640320 ^ (3 * Suc k + 1) :: real)
      = 640320 ^ 3 * real R * real X * G"
  proof -
    have h1: "(fact (Suc k) :: real) ^ 3 = real X * fact k ^ 3"
      by (simp add: X_def power_mult_distrib)
    have h2: "(640320 :: real) ^ (3 * Suc k + 1) = 640320 ^ 3 * 640320 ^ (3 * k + 1)"
    proof -
      have "3 * Suc k + 1 = 3 + (3 * k + 1)" by simp
      then show ?thesis by (simp only: power_add)
    qed
    show ?thesis unfolding f3 h1 h2 G_def by (simp only: mult_ac)
  qed
  have l: "(545140134 * real (Suc k) + 13591409) = real (L + 545140134)"
    by (simp add: L_def)
  have t1: "chud_magnitude (Suc k)
      = real P * real (L + 545140134) / (640320 ^ 3 * real R * real X) * (A / G)"
    unfolding chud_magnitude_def f6 g l by simp
  have "real P * real (L + 545140134) / (640320 ^ 3 * real R * real X) \<le> real L / 2"
  proof -
    have d: "(0::real) < 640320 ^ 3 * real R * real X" using pos Rpos by simp
    have "real P * real (L + 545140134) \<le> real L / 2 * (640320 ^ 3 * real R * real X)"
      using key by (simp add: algebra_simps)
    then show ?thesis using d by (simp only: pos_divide_le_eq)
  qed
  then have "real P * real (L + 545140134) / (640320 ^ 3 * real R * real X) * (A / G)
      \<le> real L / 2 * (A / G)"
    using pos by (intro mult_right_mono) simp_all
  then show ?thesis unfolding t0 t1 by simp
qed

lemma chud_series_partial: "chud_series n = chud_partial n / sqrt 640320"
  by (simp add: chud_series_def chud_partial_def chud_term_magnitude sum_divide_distrib)

lemma chud_partial_bounds:
  assumes "j \<le> n"
  shows "chud_partial j - 2 * chud_magnitude j \<le> chud_partial n"
    and "chud_partial n \<le> chud_partial j + 2 * chud_magnitude j"
proof -
  let ?tail = "\<Sum>k = j..<n. (- 1) ^ k * chud_magnitude k"
  have split: "chud_partial n = chud_partial j + ?tail"
    unfolding chud_partial_def using assms by (rule sum_split_at)
  have "\<bar>?tail\<bar> \<le> (\<Sum>k = j..<n. \<bar>(- 1) ^ k * chud_magnitude k\<bar>)"
    by (rule sum_abs)
  also have "\<dots> = (\<Sum>k = j..<n. chud_magnitude k)"
    using chud_magnitude_nonneg by (simp add: abs_mult)
  also have "\<dots> \<le> 2 * chud_magnitude j"
  proof -
    have "(\<Sum>k = j..<n. chud_magnitude k) + 2 * chud_magnitude n \<le> 2 * chud_magnitude j"
      using chud_magnitude_nonneg chud_magnitude_halves assms by (rule halving_tail)
    then show ?thesis using chud_magnitude_nonneg [of n] by linarith
  qed
  finally have "\<bar>?tail\<bar> \<le> 2 * chud_magnitude j" .
  then show "chud_partial j - 2 * chud_magnitude j \<le> chud_partial n"
    and "chud_partial n \<le> chud_partial j + 2 * chud_magnitude j"
    using split by linarith+
qed

lemma sqrt_640320_bounds:
  "800199975006248047558 / 10 ^ 18 < sqrt 640320"
  "sqrt 640320 < 800199975006248047559 / 10 ^ 18"
proof -
  show "800199975006248047558 / 10 ^ 18 < sqrt 640320"
    by (rule real_less_rsqrt) (simp add: power2_eq_square)
  show "sqrt 640320 < 800199975006248047559 / 10 ^ 18"
    by (rule real_less_lsqrt) (simp_all add: power2_eq_square)
qed

lemma chud_enclosure:
  fixes Q Ql Qu v tol :: real
  assumes "0 < Ql" "Ql \<le> Q" "Q \<le> Qu"
    and "(v - tol) * (12 * Qu) < 800199975006248047558 / 10 ^ 18"
    and "800199975006248047559 / 10 ^ 18 < (v + tol) * (12 * Ql)"
    and "0 < v - tol" "0 \<le> tol"
  shows "\<bar>v - 1 / (12 * (Q / sqrt 640320))\<bar> < tol"
proof -
  define r where "r = sqrt 640320"
  have r: "800199975006248047558 / 10 ^ 18 < r" "r < 800199975006248047559 / 10 ^ 18"
    using sqrt_640320_bounds by (simp_all add: r_def)
  have Qpos: "0 < Q" using assms(1,2) by linarith
  have "(v - tol) * (12 * Q) \<le> (v - tol) * (12 * Qu)"
    using assms(3,6) by (intro mult_left_mono) simp_all
  also have "\<dots> < r" using assms(4) r(1) by linarith
  finally have low: "v - tol < r / (12 * Q)"
    using Qpos by (simp add: pos_less_divide_eq)
  have "r < (v + tol) * (12 * Ql)" using assms(5) r(2) by linarith
  also have "\<dots> \<le> (v + tol) * (12 * Q)"
    using assms(2,6,7) by (intro mult_left_mono) simp_all
  finally have up: "r / (12 * Q) < v + tol"
    using Qpos by (simp add: pos_divide_less_eq)
  have "1 / (12 * (Q / r)) = r / (12 * Q)"
    by simp
  then show ?thesis using low up unfolding r_def by (simp add: abs_less_iff)
qed

lemma chud_partial_1: "chud_partial (Suc 0) = 13591409 / 640320"
  by (simp add: chud_partial_def chud_magnitude_def)

lemma chud_partial_2:
  "chud_partial 2 = 13591409 / 640320 - 720 * 558731543 / (6 * 640320 ^ 4)"
  by (simp add: chud_partial_def chud_magnitude_def lessThan_nat_numeral lessThan_Suc fact_numeral)

lemma chud_magnitude_2:
  "chud_magnitude 2 = 479001600 * 1103871677 / (720 * 8 * 640320 ^ 7)"
  by (simp add: chud_magnitude_def fact_numeral)

lemma chud_formula_1:
  "\<bar>valof (Fin 7074237752028308 (- 51)) - chud_formula 1\<bar> < 2 powi (- 51)"
  unfolding chud_formula_def chud_series_partial
  by (rule chud_enclosure [where Ql = "chud_partial 1" and Qu = "chud_partial 1"])
     (simp_all add: chud_partial_1 valof_def)

lemma chud_formula_from_2:
  assumes "2 \<le> n"
  shows "\<bar>valof (Fin 7074237752028441 (- 51)) - chud_formula n\<bar> < 2 powi (- 51)"
  unfolding chud_formula_def chud_series_partial
proof (rule chud_enclosure [where Ql = "chud_partial 2 - 2 * chud_magnitude 2"
      and Qu = "chud_partial 2 + 2 * chud_magnitude 2"])
  show "chud_partial 2 - 2 * chud_magnitude 2 \<le> chud_partial n"
    using assms by (rule chud_partial_bounds(1))
  show "chud_partial n \<le> chud_partial 2 + 2 * chud_magnitude 2"
    using assms by (rule chud_partial_bounds(2))
qed (simp_all add: chud_partial_2 chud_magnitude_2 valof_def)

subsection \<open>The estimators return the value of their formulas\<close>

lemma rama_formula_explicit:
  "1 / ((2 * sqrt 2 / 9801) *
     (\<Sum>k<n. fact (4 * k) * (1103 + 26390 * real k) / (fact k ^ 4 * 396 ^ (4 * k))))
   = rama_formula n"
  by (simp add: rama_formula_def rama_series_def rama_term_def)

lemma chud_formula_explicit:
  "1 / (12 * (\<Sum>k<n. (- 1) ^ k * fact (6 * k) * (545140134 * real k + 13591409)
       / (fact (3 * k) * fact k ^ 3 * 640320 powr (3 * real k + 3 / 2))))
   = chud_formula n"
  by (simp add: chud_formula_def chud_series_def chud_term_def)

lemma chud_numerator_exact:
  assumes "0 \<le> k" "nat (6 * k) < d"
  shows "chud_numerator d k
     = Inr ((if even k then 1 else - 1) * fact (nat (6 * k)) * (545140134 * k + 13591409))"
proof -
  have "even (nat k) \<longleftrightarrow> even k"
    using assms(1) by (simp add: even_nat_iff)
  then have "(- 1 :: int) ^ nat k = (if even k then 1 else - 1)"
    by simp
  then show ?thesis
    using assms by (simp add: chud_numerator_def factorial_returns)
qed

text \<open>
  The sum the loop leaves is the float nearest to the exact sum of the series: floats
  between 1024 and 2048 are \<open>2 ^ - 42\<close> apart, and the two differ by less than half
  of that.
\<close>

lemma rama_loop_1:
  assumes "0 < d"
  shows "rama_loop d (range_py 1) (PInt 0) = Inr (PFloat (Fin 4851045301747712 (- 42)))"
proof -
  have "rama_loop d (range_py 1) (PInt 0) = rama_loop 5 (range_py 1) (PInt 0)"
    using assms by (intro rama_loop_depth) (auto simp add: range_py_1)
  then show ?thesis by (simp add: rama_loop_1_at_5)
qed

lemma rama_loop_2:
  assumes "4 < d"
  shows "rama_loop d (range_py 2) (PInt 0) = Inr (PFloat (Fin 4851045419755983 (- 42)))"
proof -
  have "rama_loop d (range_py 2) (PInt 0) = rama_loop 5 (range_py 2) (PInt 0)"
    using assms by (intro rama_loop_depth) (auto simp add: range_py_2)
  then show ?thesis by (simp add: rama_loop_2_at_5)
qed

lemma rama_sum_1_nearest:
  "\<bar>valof (Fin 4851045301747712 (- 42)) - rama_series (Suc 0)\<bar> < 2 powi (- 43)"
  by (simp add: rama_series_1 valof_def)

lemma rama_sum_2_nearest:
  "\<bar>valof (Fin 4851045419755983 (- 42)) - rama_series 2\<bar> < 2 powi (- 43)"
  by (simp add: rama_series_2 valof_def abs_less_iff field_simps)

lemma rama_sum_3_nearest:
  assumes "3 \<le> n"
  shows "\<bar>valof rama_sum_3 - rama_series n\<bar> < 2 powi (- 43)"
proof -
  have l: "rama_series 3 \<le> rama_series n" using assms by (rule rama_series_bounds(1))
  have u: "rama_series n \<le> rama_series 3 + 2 * rama_term 3"
    using assms by (rule rama_series_bounds(2))
  have a: "valof rama_sum_3 - 2 powi (- 43) < rama_series 3"
    by (simp add: rama_series_3 valof_def rama_sum_3_def field_simps)
  have b: "rama_series 3 + 2 * rama_term 3 < valof rama_sum_3 + 2 powi (- 43)"
    by (simp add: rama_series_3 rama_term_3_value valof_def rama_sum_3_def field_simps)
  have "valof rama_sum_3 - rama_series n < 2 powi (- 43)"
    using l a by linarith
  moreover have "- (valof rama_sum_3 - rama_series n) < 2 powi (- 43)"
    using u b by linarith
  ultimately show ?thesis unfolding abs_less_iff by (rule conjI)
qed

lemma rama_series_explicit:
  "(\<Sum>k<n. fact (4 * k) * (1103 + 26390 * real k) / (fact k ^ 4 * 396 ^ (4 * k)))
   = rama_series n"
  by (simp add: rama_series_def rama_term_def)

text \<open>
  C2. For every term count \<open>n \<ge> 1\<close> (and a recursion limit that allows the
  \<open>4 (n - 1) + 1\<close> nested calls of \<^verbatim>\<open>factorial\<close>) the Ramanujan--Sato estimator
  returns \<open>1 / ((2 sqrt 2 / 9801) S)\<close>, where \<open>S\<close> is the sum over \<open>k\<close> from 0 to
  \<open>n - 1\<close> of \<open>(4k)! (1103 + 26390 k) / ((k!) ^ 4 * 396 ^ (4k))\<close>, computed in
  binary64 floats. The loop leaves in \<^verbatim>\<open>sum_result\<close> the float nearest to \<open>S\<close>: it is
  \<open>1103\<close> for one term, \<open>4851045419755983 / 2 ^ 42\<close> for two terms and
  \<open>4851045419755984 / 2 ^ 42\<close> for three terms or more, each less than \<open>2 ^ - 43\<close>
  away from \<open>S\<close>. The value returned is \<open>7074237924118891 / 2 ^ 51\<close> for one term,
  \<open>7074237752028441 / 2 ^ 51\<close> for two terms and \<^verbatim>\<open>math.pi\<close>
  \<open>= 7074237752028440 / 2 ^ 51\<close> for three terms or more; it differs from the exact
  value of the formula by less than \<open>2 ^ - 51\<close>, the distance between neighbouring
  floats at pi.
\<close>

theorem ramanujan_returns_formula:
  assumes "1 \<le> n" "4 * (n - 1) < int d"
  shows "\<exists>s r.
     rama_loop d (range_py n) (PInt 0) = Inr (PFloat s) \<and>
     s = (if n = 1 then Fin 4851045301747712 (- 42)
          else if n = 2 then Fin 4851045419755983 (- 42)
          else Fin 4851045419755984 (- 42)) \<and>
     \<bar>valof s -
        (\<Sum>k<nat n. fact (4 * k) * (1103 + 26390 * real k) / (fact k ^ 4 * 396 ^ (4 * k)))\<bar>
     < 2 powi (- 43) \<and>
     estimate_pi_ramanujan d n = Inr r \<and>
     r = (if n = 1 then Fin 7074237924118891 (- 51)
          else if n = 2 then Fin 7074237752028441 (- 51)
          else Fin 7074237752028440 (- 51)) \<and>
     \<bar>valof r - 1 / ((2 * sqrt 2 / 9801) *
        (\<Sum>k<nat n. fact (4 * k) * (1103 + 26390 * real k) / (fact k ^ 4 * 396 ^ (4 * k))))\<bar>
     < 2 powi (- 51)"
proof -
  consider "n = 1" | "n = 2" | "3 \<le> n" using assms(1) by linarith
  then show ?thesis
  proof cases
    case 1
    have "rama_loop d (range_py 1) (PInt 0) = Inr (PFloat (Fin 4851045301747712 (- 42)))"
      using assms(2) 1 by (intro rama_loop_1) simp
    moreover have "estimate_pi_ramanujan d 1 = Inr (Fin 7074237924118891 (- 51))"
      using assms(2) 1 by (intro estimate_pi_ramanujan_1) simp
    ultimately show ?thesis
      unfolding 1 rama_series_explicit rama_formula_def [symmetric]
      using rama_formula_1 rama_sum_1_nearest by (simp del: power_int_minus)
  next
    case 2
    have "rama_loop d (range_py 2) (PInt 0) = Inr (PFloat (Fin 4851045419755983 (- 42)))"
      using assms(2) 2 by (intro rama_loop_2) simp
    moreover have "estimate_pi_ramanujan d 2 = Inr (Fin 7074237752028441 (- 51))"
      using assms(2) 2 by (intro estimate_pi_ramanujan_2) simp
    ultimately show ?thesis
      unfolding 2 rama_series_explicit rama_formula_def [symmetric]
      using rama_formula_2 rama_sum_2_nearest by (simp del: power_int_minus)
  next
    case 3
    then have n: "3 \<le> nat n" "n \<noteq> 1" "n \<noteq> 2" by simp_all
    have "\<bar>valof (Fin 7074237752028440 (- 51)) - rama_formula (nat n)\<bar> < 2 powi (- 51)"
      using n(1) rama_formula_from_3 [of "nat n"] by (simp only: math_pi_def)
    moreover have "\<bar>valof (Fin 4851045419755984 (- 42)) - rama_series (nat n)\<bar> < 2 powi (- 43)"
      using n(1) rama_sum_3_nearest [of "nat n"] by (simp only: rama_sum_3_def)
    moreover have "estimate_pi_ramanujan d n = Inr (Fin 7074237752028440 (- 51))"
      using assms(2) 3 estimate_pi_ramanujan_from_3 [of n d] by (simp add: math_pi_def)
    moreover have "rama_loop d (range_py n) (PInt 0) = Inr (PFloat (Fin 4851045419755984 (- 42)))"
      using assms(2) 3 rama_loop_from_3 [of n d] by (simp add: rama_sum_3_def)
    ultimately show ?thesis
      unfolding rama_series_explicit rama_formula_def [symmetric]
      by (simp only: n(2,3) if_False) blast
  qed
qed

theorem ramanujan_returns_formula_witness:
  "\<exists>s r.
     rama_loop 1000 (range_py 5) (PInt 0) = Inr (PFloat s) \<and>
     s = Fin 4851045419755984 (- 42) \<and>
     \<bar>valof s -
        (\<Sum>k<5. fact (4 * k) * (1103 + 26390 * real k) / (fact k ^ 4 * 396 ^ (4 * k)))\<bar>
     < 2 powi (- 43) \<and>
     estimate_pi_ramanujan 1000 5 = Inr r \<and>
     r = Fin 7074237752028440 (- 51) \<and>
     \<bar>valof r - 1 / ((2 * sqrt 2 / 9801) *
        (\<Sum>k<5. fact (4 * k) * (1103 + 26390 * real k) / (fact k ^ 4 * 396 ^ (4 * k))))\<bar>
     < 2 powi (- 51)"
  using ramanujan_returns_formula [of 5 1000] by simp

text \<open>
  C1, as the code has it. For a term count \<open>n\<close> from 1 to 18 (and a recursion limit
  that allows the \<open>6 (n - 1) + 1\<close> nested calls of \<^verbatim>\<open>factorial\<close>) the Chudnovsky
  estimator returns \<open>1 / (12 S)\<close>, where \<open>S\<close> is the sum over \<open>k\<close> from 0 to \<open>n - 1\<close>
  of \<open>(-1) ^ k (6k)! (545140134 k + 13591409) / ((3k)! (k!) ^ 3 * 640320 ^ (3k + 3/2))\<close>:
  the float it returns differs from the exact value of the formula by less than
  \<open>2 ^ - 51\<close>, the distance between neighbouring floats at pi. For a term count
  above 18 it raises \<^verbatim>\<open>OverflowError\<close>. In every iteration the numerator is an exact
  integer, and its sign factor \<^verbatim>\<open>(-1)**k\<close>, a power of integers, is 1 for even \<open>k\<close>
  and \<open>- 1\<close> for odd \<open>k\<close>.
\<close>

theorem chudnovsky_returns_formula:
  assumes "1 \<le> n" "6 * (n - 1) < int d"
  shows "(n \<le> 18 \<longrightarrow> (\<exists>m e. estimate_pi_chudnovsky d n = Inr (Fin m e) \<and>
       \<bar>valof (Fin m e) - 1 / (12 *
          (\<Sum>k<nat n. (- 1) ^ k * fact (6 * k) * (545140134 * real k + 13591409)
             / (fact (3 * k) * fact k ^ 3 * 640320 powr (3 * real k + 3 / 2))))\<bar>
       < 2 powi (- 51))) \<and>
     (18 < n \<longrightarrow> estimate_pi_chudnovsky d n = Inl OverflowError) \<and>
     (\<forall>k \<in> set (range_py n). chud_numerator d k
        = Inr ((if even k then 1 else - 1) * fact (nat (6 * k)) * (545140134 * k + 13591409)))"
proof (intro conjI impI ballI)
  assume n18: "n \<le> 18"
  consider "n = 1" | "2 \<le> n" using assms(1) by linarith
  then show "\<exists>m e. estimate_pi_chudnovsky d n = Inr (Fin m e) \<and>
       \<bar>valof (Fin m e) - 1 / (12 *
          (\<Sum>k<nat n. (- 1) ^ k * fact (6 * k) * (545140134 * real k + 13591409)
             / (fact (3 * k) * fact k ^ 3 * 640320 powr (3 * real k + 3 / 2))))\<bar>
       < 2 powi (- 51)"
  proof cases
    case 1
    have "estimate_pi_chudnovsky d 1 = Inr (Fin 7074237752028308 (- 51))"
      using assms(2) 1 by (intro estimate_pi_chudnovsky_1) simp
    then show ?thesis
      unfolding 1 chud_formula_explicit using chud_formula_1 by auto
  next
    case 2
    then have "2 \<le> nat n" by simp
    then have "\<bar>valof (Fin 7074237752028441 (- 51)) - chud_formula (nat n)\<bar> < 2 powi (- 51)"
      by (rule chud_formula_from_2)
    moreover have "estimate_pi_chudnovsky d n = Inr (Fin 7074237752028441 (- 51))"
      using 2 n18 assms(2) by (rule estimate_pi_chudnovsky_upto_18)
    ultimately show ?thesis
      unfolding chud_formula_explicit by blast
  qed
next
  assume "18 < n"
  then show "estimate_pi_chudnovsky d n = Inl OverflowError"
    using assms(2) by (intro estimate_pi_chudnovsky_overflow) auto
next
  fix k assume "k \<in> set (range_py n)"
  then have "0 \<le> k \<and> k < n" by (rule range_py_bounds)
  then show "chud_numerator d k
        = Inr ((if even k then 1 else - 1) * fact (nat (6 * k)) * (545140134 * k + 13591409))"
    using assms(2) by (intro chud_numerator_exact) auto
qed

theorem chudnovsky_returns_formula_witness:
  "(\<exists>m e. estimate_pi_chudnovsky 1000 4 = Inr (Fin m e) \<and>
       \<bar>valof (Fin m e) - 1 / (12 *
          (\<Sum>k<nat 4. (- 1) ^ k * fact (6 * k) * (545140134 * real k + 13591409)
             / (fact (3 * k) * fact k ^ 3 * 640320 powr (3 * real k + 3 / 2))))\<bar>
       < 2 powi (- 51)) \<and>
   estimate_pi_chudnovsky 1000 19 = Inl OverflowError \<and>
   chud_numerator 1000 3 = Inr ((if even (3 :: int) then 1 else - 1) * fact (nat (6 * 3)) * (545140134 * 3 + 13591409))"
proof -
  have four: "(\<exists>m e. estimate_pi_chudnovsky 1000 4 = Inr (Fin m e) \<and>
       \<bar>valof (Fin m e) - 1 / (12 *
          (\<Sum>k<nat 4. (- 1) ^ k * fact (6 * k) * (545140134 * real k + 13591409)
             / (fact (3 * k) * fact k ^ 3 * 640320 powr (3 * real k + 3 / 2))))\<bar>
       < 2 powi (- 51)) \<and>
     (\<forall>k \<in> set (range_py 4). chud_numerator 1000 k
        = Inr ((if even k then 1 else - 1) * fact (nat (6 * k)) * (545140134 * k + 13591409)))"
    using chudnovsky_returns_formula [of 4 1000] by simp
  have "3 \<in> set (range_py 4)" by (simp add: range_py_def)
  with four have "chud_numerator 1000 3
      = Inr ((if even (3 :: int) then 1 else - 1) * fact (nat (6 * 3)) * (545140134 * 3 + 13591409))"
    by blast
  moreover have "estimate_pi_chudnovsky 1000 19 = Inl OverflowError"
    using chudnovsky_returns_formula [of 19 1000] by simp
  ultimately show ?thesis using four by blast
qed

text \<open>
  C1, as the specification states it, fails at 19 terms: in the 19th iteration
  (\<open>k = 18\<close>) the power \<^verbatim>\<open>640320**55.5\<close> is beyond the largest float, Python raises
  \<^verbatim>\<open>OverflowError\<close>, and \<^verbatim>\<open>estimate_pi(19)\<close> returns nothing.
\<close>

theorem nineteen_terms_overflow:
  "estimate_pi_chudnovsky 1000 19 = Inl OverflowError"
  by (simp add: estimate_pi_chudnovsky_overflow)

end
